theory Spec2Isabelle
  imports Main "HOL-Library.AList"
begin

section \<open>Time\<close>

text \<open>
  An instant is a count of nanoseconds since the zero value of Go's \<^verbatim>\<open>time.Time\<close>
  (so the zero value is \<open>0\<close>); a \<^verbatim>\<open>time.Duration\<close> is a signed 64-bit count of
  nanoseconds. \<^verbatim>\<open>time.Since(t)\<close> is \<^verbatim>\<open>time.Now().Sub(t)\<close>, and \<^verbatim>\<open>Sub\<close> saturates
  at the ends of the 64-bit range. The clock is read once per call of a modelled
  operation and passed in as \<open>now\<close>.
\<close>

type_synonym instant = int
type_synonym duration = int

definition Second :: duration where
  "Second = 1000000000"

definition Minute :: duration where
  "Minute = 60 * Second"

definition maxDuration :: duration where
  "maxDuration = 2 ^ 63 - 1"

definition minDuration :: duration where
  "minDuration = - (2 ^ 63)"

definition Since :: "instant \<Rightarrow> instant \<Rightarrow> duration" where
  "Since now t =
     (if now - t > maxDuration then maxDuration
      else if now - t < minDuration then minDuration
      else now - t)"

section \<open>Strings\<close>

text \<open>
  \<^verbatim>\<open>strings.ToLower\<close> on the bytes of a console chunk: the ASCII capitals are
  lowered and every other byte is kept (Go also lowers the capitals beyond ASCII);
  \<^verbatim>\<open>strings.Contains\<close> as a search for the pattern at every offset. The facts
  about \<open>Check\<close> below hold whatever \<open>matchesOS\<close> and \<open>matchesBIOS\<close> decide.
\<close>

definition lowerByte :: "char \<Rightarrow> char" where
  "lowerByte c =
     (if (65::nat) \<le> of_char c \<and> of_char c \<le> (90::nat)
      then (case c of Char b0 b1 b2 b3 b4 b5 b6 b7 \<Rightarrow> Char b0 b1 b2 b3 b4 True b6 b7)
      else c)"

definition ToLower :: "string \<Rightarrow> string" where
  "ToLower s = map lowerByte s"

fun HasPrefix :: "string \<Rightarrow> string \<Rightarrow> bool" where
  "HasPrefix s [] = True"
| "HasPrefix [] (p # ps) = False"
| "HasPrefix (c # cs) (p # ps) = (c = p \<and> HasPrefix cs ps)"

fun Contains :: "string \<Rightarrow> string \<Rightarrow> bool" where
  "Contains [] sub = (sub = [])"
| "Contains (c # cs) sub = (HasPrefix (c # cs) sub \<or> Contains cs sub)"

section \<open>The reboot detector (sol/reboot.go)\<close>

text \<open>
  A compiled \<^verbatim>\<open>*regexp.Regexp\<close> is used through \<^verbatim>\<open>MatchString\<close> only, so it is
  modelled by the predicate it decides. The regular-expression compiler belongs to Go's
  library: \<open>NewRebootDetector\<close> takes it as the parameter \<open>compile\<close>, which
  returns \<open>None\<close> where \<^verbatim>\<open>regexp.Compile\<close> returns an error.
\<close>

type_synonym Regexp = "string \<Rightarrow> bool"

record serverState =
  inOS :: bool
  lastReboot :: instant

record RebootDetector =
  biosPatterns :: "Regexp list"
  osPatterns :: "Regexp list"
  states :: "string \<rightharpoonup> serverState"
  cooldown :: duration

definition bsl :: string where
  "bsl = [CHR 0x5C]"

definition builtinBiosPatterns :: "string list" where
  "builtinBiosPatterns =
     [''American Megatrends'',
      ''Press <DEL> to run Setup'',
      ''Press DEL to run Setup'',
      ''BIOS Date:'',
      ''Supermicro'',
      ''Intel'' @ bsl @ ''(R'' @ bsl @ '') Boot Agent'',
      ''PXE-'',
      ''PXE->'',
      ''PXELINUX'',
      ''iPXE initialising'',
      ''iPXE '' @ bsl @ ''d+'' @ bsl @ ''.'' @ bsl @ ''d+'',
      ''Open Source Network Boot Firmware'',
      ''Booting baremetalservices'',
      ''UNDI code segment'',
      ''CLIENT MAC ADDR:'',
      ''free base memory after PXE'']"

definition builtinOsPatterns :: "string list" where
  "builtinOsPatterns =
     [bsl @ ''['' @ bsl @ ''s*'' @ bsl @ ''d+'' @ bsl @ ''.'' @ bsl @ ''d+'' @ bsl @ '']'',
      ''Linux version '' @ bsl @ ''d+'' @ bsl @ ''.'' @ bsl @ ''d+'',
      ''login:'',
      ''#'' @ bsl @ ''s*$'',
      bsl @ ''$'' @ bsl @ ''s*$'',
      ''systemd'' @ bsl @ ''['',
      ''Starting.*'' @ bsl @ ''.'' @ bsl @ ''.'' @ bsl @ ''.'',
      ''Started '',
      ''eth'' @ bsl @ ''d+:.*link'',
      ''NTP sync'']"

fun compileAll :: "(string \<Rightarrow> Regexp option) \<Rightarrow> string list \<Rightarrow> Regexp list" where
  "compileAll compile [] = []"
| "compileAll compile (p # ps) =
     (case compile (''(?i)'' @ p) of
        None \<Rightarrow> compileAll compile ps
      | Some re \<Rightarrow> re # compileAll compile ps)"

definition NewRebootDetector ::
  "(string \<Rightarrow> Regexp option) \<Rightarrow> string list \<Rightarrow> RebootDetector" where
  "NewRebootDetector compile patterns =
     \<lparr>biosPatterns = compileAll compile (builtinBiosPatterns @ patterns),
      osPatterns = compileAll compile builtinOsPatterns,
      states = Map.empty,
      cooldown = 2 * Minute\<rparr>"

fun matchesAny :: "Regexp list \<Rightarrow> string \<Rightarrow> bool" where
  "matchesAny [] text = False"
| "matchesAny (p # ps) text = (if p text then True else matchesAny ps text)"

definition matchesBIOS :: "RebootDetector \<Rightarrow> string \<Rightarrow> bool" where
  "matchesBIOS rd text = matchesAny (biosPatterns rd) text"

definition simplePatterns :: "string list" where
  "simplePatterns =
     [''welcome to'', ''kernel:'', ''last login:'', ''no mail'', ''/home/'', ''/root/'',
      ''apt '', ''yum '', ''apk '', ''docker'', ''kubelet'']"

fun containsAny :: "string \<Rightarrow> string list \<Rightarrow> bool" where
  "containsAny lowerText [] = False"
| "containsAny lowerText (p # ps) =
     (if Contains lowerText p then True else containsAny lowerText ps)"

definition matchesOS :: "RebootDetector \<Rightarrow> string \<Rightarrow> bool" where
  "matchesOS rd text =
     (if containsAny (ToLower text) simplePatterns then True
      else matchesAny (osPatterns rd) text)"

text \<open>
  \<open>lookupState\<close> is the first four lines of \<^verbatim>\<open>Check\<close>: the host's record, or a
  fresh one with \<open>inOS = False\<close> and the zero time. \<open>Check\<close> returns its result
  and the detector after the call; the record is stored in either case, as the source
  stores the pointer before it tests anything.
\<close>

definition lookupState :: "RebootDetector \<Rightarrow> string \<Rightarrow> serverState" where
  "lookupState rd serverName =
     (case states rd serverName of
        None \<Rightarrow> \<lparr>inOS = False, lastReboot = 0\<rparr>
      | Some state \<Rightarrow> state)"

definition putState :: "RebootDetector \<Rightarrow> string \<Rightarrow> serverState \<Rightarrow> RebootDetector" where
  "putState rd serverName state = rd\<lparr>states := (states rd)(serverName \<mapsto> state)\<rparr>"

definition Check :: "RebootDetector \<Rightarrow> instant \<Rightarrow> string \<Rightarrow> string \<Rightarrow> bool \<times> RebootDetector" where
  "Check rd now serverName text =
     (let state = lookupState rd serverName in
      if Since now (lastReboot state) < cooldown rd then
        (if matchesOS rd text
         then (False, putState rd serverName (state\<lparr>inOS := True\<rparr>))
         else (False, putState rd serverName state))
      else if matchesOS rd text then
        (False, putState rd serverName (state\<lparr>inOS := True\<rparr>))
      else if matchesBIOS rd text then
        (if inOS state
         then (True, putState rd serverName (state\<lparr>inOS := False, lastReboot := now\<rparr>))
         else (False, putState rd serverName state))
      else (False, putState rd serverName state))"

definition MarkOSRunning :: "RebootDetector \<Rightarrow> string \<Rightarrow> RebootDetector" where
  "MarkOSRunning rd serverName =
     (let state = (case states rd serverName of
                     None \<Rightarrow> \<lparr>inOS = False, lastReboot = 0\<rparr>
                   | Some state \<Rightarrow> state)
      in putState rd serverName (state\<lparr>inOS := True\<rparr>))"

text \<open>
  A run of the detector on one host: the chunks arrive with the time of their call, and
  the results are collected in order.
\<close>

fun checkAll ::
  "RebootDetector \<Rightarrow> string \<Rightarrow> (instant \<times> string) list \<Rightarrow> bool list \<times> RebootDetector" where
  "checkAll rd serverName [] = ([], rd)"
| "checkAll rd serverName ((now, text) # chunks) =
     (let (r, rd') = Check rd now serverName text;
          (rs, rd'') = checkAll rd' serverName chunks
      in (r # rs, rd''))"

text \<open>
  The detectors a program can hold: built by \<open>NewRebootDetector\<close>, then changed by
  \<open>Check\<close> and \<open>MarkOSRunning\<close> only.
\<close>

inductive detector :: "RebootDetector \<Rightarrow> bool" where
  new: "detector (NewRebootDetector compile patterns)"
| check: "detector rd \<Longrightarrow> detector (snd (Check rd now serverName text))"
| mark: "detector rd \<Longrightarrow> detector (MarkOSRunning rd serverName)"

text \<open>
  A stand-in for the regular-expression compiler that reads a pattern as literal text,
  matched without regard to case. It agrees with \<^verbatim>\<open>regexp.Compile\<close> on the patterns
  that have no metacharacter, and serves to run the model on concrete console lines.
\<close>

definition literalCompile :: "string \<Rightarrow> Regexp option" where
  "literalCompile p =
     (if HasPrefix p ''(?i)''
      then Some (\<lambda>text. Contains (ToLower text) (ToLower (drop 4 p)))
      else Some (\<lambda>text. Contains text p))"

section \<open>The log store (package logs)\<close>

text \<open>
  The tree below \<^verbatim>\<open>basePath\<close>: one node per name, a host's directory or something
  else; a host's directory lists its entries by name. A regular file has its bytes, its
  modification time and whether it can be opened for writing; a symbolic link has its
  target text and its own modification time (what \<^verbatim>\<open>Lstat\<close> reports); a
  subdirectory records whether it is empty, which is what \<^verbatim>\<open>os.Remove\<close> asks of it.
  Names within a directory are distinct; \<open>wfDisk\<close> says so.

  An open \<^verbatim>\<open>*os.File\<close> is modelled by the name it was opened on in its host's
  directory. The store opens files by plain names only, and a link target is read as a
  name in the host's directory, as the store itself writes it. A write through a handle
  whose file has been removed reaches no name of the directory and leaves the tree as it
  is.
\<close>

datatype entry =
    File string instant bool
  | Link string instant
  | SubDir bool instant

type_synonym directory = "(string \<times> entry) list"

datatype node = HostDir directory | Other

record Writer =
  retentionDays :: int
  files :: "string \<rightharpoonup> string"
  disk :: "(string \<times> node) list"

datatype error = MkdirFailed | CreateFailed

definition NewWriter :: "(string \<times> node) list \<Rightarrow> int \<Rightarrow> Writer" where
  "NewWriter tree days = \<lparr>retentionDays = days, files = Map.empty, disk = tree\<rparr>"

definition isDir :: "entry \<Rightarrow> bool" where
  "isDir e = (case e of SubDir _ _ \<Rightarrow> True | _ \<Rightarrow> False)"

definition modTime :: "entry \<Rightarrow> instant" where
  "modTime e = (case e of File _ t _ \<Rightarrow> t | Link _ t \<Rightarrow> t | SubDir _ t \<Rightarrow> t)"

definition hostDir :: "(string \<times> node) list \<Rightarrow> string \<Rightarrow> directory option" where
  "hostDir tree serverName =
     (case map_of tree serverName of Some (HostDir d) \<Rightarrow> Some d | _ \<Rightarrow> None)"

definition lookupEntry :: "(string \<times> node) list \<Rightarrow> string \<Rightarrow> string \<Rightarrow> entry option" where
  "lookupEntry tree serverName name =
     (case hostDir tree serverName of Some d \<Rightarrow> map_of d name | None \<Rightarrow> None)"

text \<open>\<^verbatim>\<open>os.MkdirAll\<close>: nothing to do for a directory, an error for another kind of node.\<close>

definition MkdirAll :: "(string \<times> node) list \<Rightarrow> string \<Rightarrow> (string \<times> node) list option" where
  "MkdirAll tree serverName =
     (case map_of tree serverName of
        None \<Rightarrow> Some (tree @ [(serverName, HostDir [])])
      | Some (HostDir d) \<Rightarrow> Some tree
      | Some Other \<Rightarrow> None)"

definition Readlink :: "directory \<Rightarrow> string \<Rightarrow> string option" where
  "Readlink d name = (case map_of d name of Some (Link target t) \<Rightarrow> Some target | _ \<Rightarrow> None)"

text \<open>\<^verbatim>\<open>os.OpenFile\<close> with \<^verbatim>\<open>O_WRONLY|O_APPEND\<close>: the file must be there.\<close>

definition OpenAppend :: "directory \<Rightarrow> string \<Rightarrow> bool" where
  "OpenAppend d name = (case map_of d name of Some (File c t w) \<Rightarrow> w | _ \<Rightarrow> False)"

text \<open>
  \<^verbatim>\<open>os.OpenFile\<close> with \<^verbatim>\<open>O_CREATE|O_WRONLY|O_APPEND\<close>: a missing file is created
  empty, an existing one is opened as it is.
\<close>

definition OpenCreate :: "directory \<Rightarrow> string \<Rightarrow> instant \<Rightarrow> directory option" where
  "OpenCreate d name now =
     (case map_of d name of
        None \<Rightarrow> Some (d @ [(name, File [] now True)])
      | Some (File c t w) \<Rightarrow> (if w then Some d else None)
      | Some _ \<Rightarrow> None)"

text \<open>\<^verbatim>\<open>os.Remove\<close>, its error dropped: a directory that is not empty stays.\<close>

definition Remove :: "directory \<Rightarrow> string \<Rightarrow> directory" where
  "Remove d name =
     (case map_of d name of
        Some (SubDir False t) \<Rightarrow> d
      | _ \<Rightarrow> AList.delete name d)"

text \<open>\<^verbatim>\<open>os.Symlink\<close>, its error dropped: it fails when the name is taken.\<close>

definition Symlink :: "directory \<Rightarrow> string \<Rightarrow> string \<Rightarrow> instant \<Rightarrow> directory" where
  "Symlink d target name now =
     (case map_of d name of
        None \<Rightarrow> d @ [(name, Link target now)]
      | Some e \<Rightarrow> d)"

definition putDir :: "(string \<times> node) list \<Rightarrow> string \<Rightarrow> directory \<Rightarrow> (string \<times> node) list" where
  "putDir tree serverName d = AList.update serverName (HostDir d) tree"

text \<open>
  The second half of \<^verbatim>\<open>getOrCreateFile\<close>. The file is named by
  \<^verbatim>\<open>time.Now().Format("2006-01-02_15-04-05")\<close>: the layout has no field below the
  second, so the name is a function of the whole second of the wall clock. That function
  is the parameter \<open>layout\<close>, which takes the seconds since the zero time.
\<close>

definition createLogFile ::
  "(int \<Rightarrow> string) \<Rightarrow> Writer \<Rightarrow> instant \<Rightarrow> string \<Rightarrow> directory \<Rightarrow> (error + string) \<times> Writer" where
  "createLogFile layout w now serverName d =
     (let filename = layout (now div Second) @ ''.log'' in
      case OpenCreate d filename now of
        None \<Rightarrow> (Inl CreateFailed, w)
      | Some d1 \<Rightarrow>
          (let d2 = Symlink (Remove d1 ''current.log'') filename ''current.log'' now
           in (Inr filename,
               w\<lparr>files := (files w)(serverName \<mapsto> filename),
                  disk := putDir (disk w) serverName d2\<rparr>)))"

definition getOrCreateFile ::
  "(int \<Rightarrow> string) \<Rightarrow> Writer \<Rightarrow> instant \<Rightarrow> string \<Rightarrow> (error + string) \<times> Writer" where
  "getOrCreateFile layout w now serverName =
     (case files w serverName of
        Some f \<Rightarrow> (Inr f, w)
      | None \<Rightarrow>
          (case MkdirAll (disk w) serverName of
             None \<Rightarrow> (Inl MkdirFailed, w)
           | Some tree \<Rightarrow>
               (let w1 = w\<lparr>disk := tree\<rparr>;
                    d = (case hostDir tree serverName of Some d \<Rightarrow> d | None \<Rightarrow> [])
                in case Readlink d ''current.log'' of
                     Some target \<Rightarrow>
                       (if OpenAppend d target
                        then (Inr target, w1\<lparr>files := (files w1)(serverName \<mapsto> target)\<rparr>)
                        else createLogFile layout w1 now serverName d)
                   | None \<Rightarrow> createLogFile layout w1 now serverName d)))"

text \<open>\<^verbatim>\<open>f.Write(data)\<close>: the bytes go to the end of the file, whose time becomes \<open>now\<close>.\<close>

fun appendTo :: "directory \<Rightarrow> string \<Rightarrow> string \<Rightarrow> instant \<Rightarrow> directory" where
  "appendTo [] name data now = []"
| "appendTo ((n, e) # es) name data now =
     (if n = name
      then (case e of
              File c t w \<Rightarrow> (n, File (c @ data) now w) # es
            | _ \<Rightarrow> (n, e) # es)
      else (n, e) # appendTo es name data now)"

definition fileWrite ::
  "(string \<times> node) list \<Rightarrow> string \<Rightarrow> string \<Rightarrow> string \<Rightarrow> instant \<Rightarrow> (string \<times> node) list" where
  "fileWrite tree serverName f data now =
     (case hostDir tree serverName of
        None \<Rightarrow> tree
      | Some d \<Rightarrow> putDir tree serverName (appendTo d f data now))"

definition Write ::
  "(int \<Rightarrow> string) \<Rightarrow> Writer \<Rightarrow> instant \<Rightarrow> string \<Rightarrow> string \<Rightarrow> error option \<times> Writer" where
  "Write layout w now serverName data =
     (case getOrCreateFile layout w now serverName of
        (Inl err, w1) \<Rightarrow> (Some err, w1)
      | (Inr f, w1) \<Rightarrow> (None, w1\<lparr>disk := fileWrite (disk w1) serverName f data now\<rparr>))"

definition Rotate :: "Writer \<Rightarrow> string \<Rightarrow> error option \<times> Writer" where
  "Rotate w serverName =
     (case files w serverName of
        Some f \<Rightarrow> (None, w\<lparr>files := (files w)(serverName := None)\<rparr>)
      | None \<Rightarrow> (None, w))"

text \<open>
  \<^verbatim>\<open>filepath.Ext\<close> of a plain name: the suffix from the last dot on, empty when the
  name has no dot.
\<close>

fun extFrom :: "string \<Rightarrow> string option" where
  "extFrom [] = None"
| "extFrom (c # cs) =
     (case extFrom cs of
        Some ext \<Rightarrow> Some ext
      | None \<Rightarrow> (if c = CHR ''.'' then Some (c # cs) else None))"

definition Ext :: "string \<Rightarrow> string" where
  "Ext name = (case extFrom name of Some ext \<Rightarrow> ext | None \<Rightarrow> [])"

definition Day :: duration where
  "Day = 24 * 60 * 60 * Second"

text \<open>
  \<^verbatim>\<open>time.Now().AddDate(0, 0, -retentionDays)\<close>, on a wall clock whose days all have
  24 hours.
\<close>

definition AddDays :: "instant \<Rightarrow> int \<Rightarrow> instant" where
  "AddDays t n = t + n * Day"

text \<open>
  The inner loop of \<^verbatim>\<open>Cleanup\<close> over the listing \<^verbatim>\<open>os.ReadDir\<close> returned: the
  name and the kind of an entry come from the listing, its \<^verbatim>\<open>Info()\<close> from the
  directory as it is when the entry's turn comes (an entry that is gone by then is
  skipped).
\<close>

fun cleanupFiles :: "instant \<Rightarrow> (string \<times> entry) list \<Rightarrow> directory \<Rightarrow> directory" where
  "cleanupFiles cutoff [] d = d"
| "cleanupFiles cutoff ((name, e) # logFiles) d =
     (if isDir e \<or> Ext name \<noteq> ''.log'' then cleanupFiles cutoff logFiles d
      else (case map_of d name of
              None \<Rightarrow> cleanupFiles cutoff logFiles d
            | Some info \<Rightarrow>
                (if modTime info < cutoff
                 then cleanupFiles cutoff logFiles (Remove d name)
                 else cleanupFiles cutoff logFiles d)))"

fun cleanupServers :: "instant \<Rightarrow> (string \<times> node) list \<Rightarrow> (string \<times> node) list" where
  "cleanupServers cutoff [] = []"
| "cleanupServers cutoff ((name, nd) # entries) =
     (case nd of
        Other \<Rightarrow> (name, nd) # cleanupServers cutoff entries
      | HostDir d \<Rightarrow> (name, HostDir (cleanupFiles cutoff d d)) # cleanupServers cutoff entries)"

definition Cleanup :: "Writer \<Rightarrow> instant \<Rightarrow> Writer" where
  "Cleanup w now =
     (if retentionDays w \<le> 0 then w
      else (let cutoff = AddDays now (- retentionDays w)
            in w\<lparr>disk := cleanupServers cutoff (disk w)\<rparr>))"

definition wfDisk :: "(string \<times> node) list \<Rightarrow> bool" where
  "wfDisk tree =
     (distinct (map fst tree) \<and>
      list_all (\<lambda>(name, nd). case nd of HostDir d \<Rightarrow> distinct (map fst d) | Other \<Rightarrow> True) tree)"

text \<open>
  The layout \<^verbatim>\<open>2006-01-02_15-04-05\<close> on a wall clock set to UTC, for years of four
  digits: the date of a day number by the usual count of days from 1 March, then the
  fields in two and four decimal digits.
\<close>

definition digit :: "int \<Rightarrow> char" where
  "digit n = ''0123456789'' ! nat (n mod 10)"

definition pad2 :: "int \<Rightarrow> string" where
  "pad2 n = [digit (n div 10), digit n]"

definition pad4 :: "int \<Rightarrow> string" where
  "pad4 n = [digit (n div 1000), digit (n div 100), digit (n div 10), digit n]"

definition civil :: "int \<Rightarrow> int \<times> int \<times> int" where
  "civil days =
     (let z = days + 306;
          era = z div 146097;
          doe = z mod 146097;
          yoe = (doe - doe div 1460 + doe div 36524 - doe div 146096) div 365;
          doy = doe - (365 * yoe + yoe div 4 - yoe div 100);
          mp = (5 * doy + 2) div 153;
          dd = doy - (153 * mp + 2) div 5 + 1;
          m = (if mp < 10 then mp + 3 else mp - 9);
          y = yoe + era * 400 + (if m \<le> 2 then 1 else 0)
      in (y, m, dd))"

definition utcLayout :: "int \<Rightarrow> string" where
  "utcLayout secs =
     (let (y, m, dd) = civil (secs div 86400);
          r = secs mod 86400
      in pad4 y @ ''-'' @ pad2 m @ ''-'' @ pad2 dd @ ''_''
         @ pad2 (r div 3600) @ ''-'' @ pad2 (r div 60 mod 60) @ ''-'' @ pad2 (r mod 60))"

text \<open>
  Sample data for running the model: midnight of 1 January 2024 (UTC), and the store
  of a fresh process after its first write for the host \<^verbatim>\<open>node1\<close> at that time.
\<close>

definition newYear :: instant where
  "newYear = 63839664000 * Second"

definition sampleWriter :: Writer where
  "sampleWriter = snd (Write utcLayout (NewWriter [] 7) newYear ''node1'' ''boot 1'')"

definition restartedWriter :: Writer where
  "restartedWriter = NewWriter (disk sampleWriter) 7"

section \<open>The session manager (sol/manager.go)\<close>

text \<open>
  Sessions, contexts and channels are objects that the manager and its callers hold by
  reference. The model keeps them in stores indexed by references and hands out
  references in increasing order. A context is its reference; it is cancelled when the
  reference is in \<open>cancelled\<close>. The \<open>effects\<close> list records, in the order the source
  performs them, the cancellations, the writes to the registry and the goroutines started.
  The credentials, the log writer, the detector and the analytics of \<^verbatim>\<open>Manager\<close> take
  no part in the operations modelled and are left out.
\<close>

type_synonym ref = nat

record Session =
  ServerName :: string
  IP :: string
  Connected :: bool
  LastError :: string
  cancel :: "ref option"
  subscribers :: "ref set option"

record chanState =
  capacity :: nat
  queue :: "string list"
  closed :: bool

datatype effect =
    Cancel ref
  | Install string ref
  | Go ref ref

record Manager =
  sessions :: "string \<rightharpoonup> ref"
  heap :: "ref \<rightharpoonup> Session"
  cancelled :: "ref set"
  chans :: "ref \<rightharpoonup> chanState"
  nextRef :: ref
  effects :: "effect list"

definition NewManager :: Manager where
  "NewManager =
     \<lparr>sessions = Map.empty, heap = Map.empty, cancelled = {}, chans = Map.empty,
      nextRef = 0, effects = []\<rparr>"

definition callCancel :: "Manager \<Rightarrow> ref \<Rightarrow> Manager" where
  "callCancel m ctx = m\<lparr>cancelled := insert ctx (cancelled m), effects := effects m @ [Cancel ctx]\<rparr>"

text \<open>The first block of \<^verbatim>\<open>StartSession\<close> and of \<^verbatim>\<open>StopSession\<close>.\<close>

definition cancelExisting :: "Manager \<Rightarrow> ref \<Rightarrow> Manager" where
  "cancelExisting m existing =
     (case heap m existing of
        None \<Rightarrow> m
      | Some s \<Rightarrow> (case cancel s of None \<Rightarrow> m | Some ctx \<Rightarrow> callCancel m ctx))"

definition StartSession :: "Manager \<Rightarrow> string \<Rightarrow> string \<Rightarrow> Manager" where
  "StartSession m serverName ip =
     (let m1 = (case sessions m serverName of
                  None \<Rightarrow> m
                | Some existing \<Rightarrow> cancelExisting m existing);
          ctx = nextRef m1;
          session = Suc (nextRef m1)
      in m1\<lparr>heap := (heap m1)(session \<mapsto>
                \<lparr>ServerName = serverName, IP = ip, Connected = False, LastError = [],
                 cancel = Some ctx, subscribers = Some {}\<rparr>),
             sessions := (sessions m1)(serverName \<mapsto> session),
             nextRef := Suc (Suc (nextRef m1)),
             effects := effects m1 @ [Install serverName session, Go ctx session]\<rparr>)"

definition closeAll :: "ref set \<Rightarrow> (ref \<rightharpoonup> chanState) \<Rightarrow> (ref \<rightharpoonup> chanState)" where
  "closeAll subs cs =
     (\<lambda>ch. if ch \<in> subs then map_option (\<lambda>c. c\<lparr>closed := True\<rparr>) (cs ch) else cs ch)"

definition StopSession :: "Manager \<Rightarrow> string \<Rightarrow> Manager" where
  "StopSession m serverName =
     (case sessions m serverName of
        None \<Rightarrow> m
      | Some session \<Rightarrow>
          (let m1 = cancelExisting m session;
               subs = (case heap m1 session of
                         None \<Rightarrow> {}
                       | Some s \<Rightarrow> (case subscribers s of None \<Rightarrow> {} | Some subs \<Rightarrow> subs))
           in m1\<lparr>chans := closeAll subs (chans m1),
                  heap := (\<lambda>r. if r = session
                                then map_option (\<lambda>s. s\<lparr>subscribers := None\<rparr>) (heap m1 r)
                                else heap m1 r),
                  sessions := (sessions m1)(serverName := None)\<rparr>))"

definition GetSession :: "Manager \<Rightarrow> string \<Rightarrow> ref option" where
  "GetSession m serverName = sessions m serverName"

text \<open>
  \<^verbatim>\<open>Subscribe\<close> returns \<^verbatim>\<open>(nil, nil)\<close> for a host without a session: \<open>NoSession\<close>.
  Otherwise it returns the new channel and the closure \<^verbatim>\<open>unsubscribe\<close>, which holds the
  session and the channel it captured. Storing into a nil map panics in Go: \<open>NilMap\<close>.
\<close>

datatype subscription =
    NoSession
  | Subscribed ref "ref \<times> ref"
  | NilMap

definition Subscribe :: "Manager \<Rightarrow> string \<Rightarrow> subscription \<times> Manager" where
  "Subscribe m serverName =
     (case sessions m serverName of
        None \<Rightarrow> (NoSession, m)
      | Some session \<Rightarrow>
          (let ch = nextRef m;
               m1 = m\<lparr>chans := (chans m)(ch \<mapsto> \<lparr>capacity = 100, queue = [], closed = False\<rparr>),
                       nextRef := Suc (nextRef m)\<rparr>
           in case heap m1 session of
                None \<Rightarrow> (NilMap, m1)
              | Some s \<Rightarrow>
                  (case subscribers s of
                     None \<Rightarrow> (NilMap, m1)
                   | Some subs \<Rightarrow>
                       (Subscribed ch (session, ch),
                        m1\<lparr>heap := (heap m1)(session \<mapsto> s\<lparr>subscribers := Some (insert ch subs)\<rparr>)\<rparr>))))"

text \<open>The closure: \<^verbatim>\<open>delete\<close> on a nil map does nothing.\<close>

definition unsubscribe :: "Manager \<Rightarrow> ref \<times> ref \<Rightarrow> Manager" where
  "unsubscribe m cl =
     (case cl of (session, ch) \<Rightarrow>
        m\<lparr>heap := (\<lambda>r. if r = session
                       then map_option
                              (\<lambda>s. s\<lparr>subscribers := map_option (\<lambda>subs. subs - {ch}) (subscribers s)\<rparr>)
                              (heap m r)
                       else heap m r)\<rparr>)"

text \<open>
  \<^verbatim>\<open>connectSOL\<close> as it stands: the connection is disabled and every attempt fails.
\<close>

definition connectSOL :: "Session \<Rightarrow> Session \<times> string option" where
  "connectSOL session =
     (session\<lparr>Connected := False, LastError := ''SOL disabled - arm64 TTY issues''\<rparr>,
      Some ''SOL disabled'')"

text \<open>
  The loop of \<^verbatim>\<open>runSession\<close>. It runs until its context is cancelled, so the model
  follows it along a finite record of what each round meets: whether the context is
  done at the top of the round, and whether the \<^verbatim>\<open>select\<close> after the attempt ends on
  the context rather than on the timer. The result is the list of the intervals the loop
  has waited in full, and the session as the loop left it. The connection attempt is the
  parameter \<open>connect\<close>, so that an attempt may also succeed; \<open>runSession\<close> is the
  loop with \<open>connectSOL\<close>. The interval stays between one second and sixty, far from
  the ends of the 64-bit \<^verbatim>\<open>time.Duration\<close>.
\<close>

fun sessionLoop ::
  "(Session \<Rightarrow> Session \<times> string option) \<Rightarrow> duration \<Rightarrow> Session \<Rightarrow> (bool \<times> bool) list
     \<Rightarrow> duration list \<times> Session" where
  "sessionLoop connect backoff session [] = ([], session)"
| "sessionLoop connect backoff session ((doneFirst, doneInWait) # rounds) =
     (if doneFirst then ([], session)
      else
        (let (s1, err) = connect session;
             s2 = (case err of
                     None \<Rightarrow> s1
                   | Some e \<Rightarrow> s1\<lparr>Connected := False, LastError := e\<rparr>)
         in if doneInWait then ([], s2)
            else
              (let doubled = backoff * 2;
                   backoff' = (if doubled > 60 * Second then 60 * Second else doubled);
                   (waits, s3) = sessionLoop connect backoff' s2 rounds
               in (backoff # waits, s3))))"

definition runSessionWith ::
  "(Session \<Rightarrow> Session \<times> string option) \<Rightarrow> Session \<Rightarrow> (bool \<times> bool) list \<Rightarrow> duration list \<times> Session" where
  "runSessionWith connect session rounds = sessionLoop connect Second session rounds"

definition runSession :: "Session \<Rightarrow> (bool \<times> bool) list \<Rightarrow> duration list \<times> Session" where
  "runSession session rounds = runSessionWith connectSOL session rounds"

text \<open>
  The managers a program can hold: \<open>NewManager\<close>, changed by the operations above and
  by the status writes of a session's loop.
\<close>

definition setStatus :: "Manager \<Rightarrow> ref \<Rightarrow> bool \<Rightarrow> string \<Rightarrow> Manager" where
  "setStatus m session up err =
     m\<lparr>heap := (\<lambda>r. if r = session
                    then map_option (\<lambda>s. s\<lparr>Connected := up, LastError := err\<rparr>) (heap m r)
                    else heap m r)\<rparr>"

inductive manager :: "Manager \<Rightarrow> bool" where
  new: "manager NewManager"
| start: "manager m \<Longrightarrow> manager (StartSession m serverName ip)"
| stop: "manager m \<Longrightarrow> manager (StopSession m serverName)"
| subscribe: "manager m \<Longrightarrow> manager (snd (Subscribe m serverName))"
| unsubscribe: "manager m \<Longrightarrow> manager (unsubscribe m cl)"
| status: "manager m \<Longrightarrow> manager (setStatus m session up err)"

text \<open>
  A session is live for a host when it carries the host's name and its context has not
  been cancelled: its loop has not been told to stop.
\<close>

definition live :: "Manager \<Rightarrow> string \<Rightarrow> ref \<Rightarrow> bool" where
  "live m serverName session =
     (case heap m session of
        None \<Rightarrow> False
      | Some s \<Rightarrow>
          ServerName s = serverName
          \<and> (case cancel s of None \<Rightarrow> True | Some ctx \<Rightarrow> ctx \<notin> cancelled m))"

section \<open>Facts about the detector\<close>

lemma cooldown_putState [simp]: "cooldown (putState rd h st) = cooldown rd"
  by (simp add: putState_def)

lemma states_putState [simp]: "states (putState rd h st) = (states rd)(h \<mapsto> st)"
  by (simp add: putState_def)

lemma osPatterns_putState [simp]: "osPatterns (putState rd h st) = osPatterns rd"
  by (simp add: putState_def)

lemma biosPatterns_putState [simp]: "biosPatterns (putState rd h st) = biosPatterns rd"
  by (simp add: putState_def)

lemma cooldown_Check: "cooldown (snd (Check rd now h text)) = cooldown rd"
  by (simp add: Check_def Let_def)

lemma cooldown_MarkOSRunning: "cooldown (MarkOSRunning rd h) = cooldown rd"
  by (simp add: MarkOSRunning_def Let_def)

lemma detector_cooldown: "detector rd \<Longrightarrow> cooldown rd = 2 * Minute"
  by (induction rule: detector.induct)
     (simp_all add: NewRebootDetector_def cooldown_Check cooldown_MarkOSRunning)

lemma matchesOS_putState [simp]: "matchesOS (putState rd h st) text = matchesOS rd text"
  by (simp add: matchesOS_def)

lemma matchesBIOS_putState [simp]: "matchesBIOS (putState rd h st) text = matchesBIOS rd text"
  by (simp add: matchesBIOS_def)

lemma matchesOS_Check: "matchesOS (snd (Check rd now h text)) text' = matchesOS rd text'"
  by (simp add: Check_def Let_def)

lemma Check_OS_False: "matchesOS rd text \<Longrightarrow> fst (Check rd now h text) = False"
  by (simp add: Check_def Let_def)

lemma lookupState_putState [simp]: "lookupState (putState rd h st) h = st"
  by (simp add: lookupState_def)

lemma Check_True_iff:
  "fst (Check rd now h text) \<longleftrightarrow>
     \<not> Since now (lastReboot (lookupState rd h)) < cooldown rd \<and> \<not> matchesOS rd text
     \<and> matchesBIOS rd text \<and> inOS (lookupState rd h)"
  by (simp add: Check_def Let_def)

lemma Check_True_state:
  "fst (Check rd now h text) \<Longrightarrow>
     states (snd (Check rd now h text)) h = Some ((lookupState rd h)\<lparr>inOS := False, lastReboot := now\<rparr>)"
  by (simp add: Check_def Let_def split: if_splits)

lemma inOS_lookupState:
  "inOS (lookupState rd h) \<longleftrightarrow> (\<exists>st. states rd h = Some st \<and> inOS st)"
  by (simp add: lookupState_def split: option.splits)

lemma checkAll_OS_False:
  "(\<And>c. c \<in> set chunks \<Longrightarrow> matchesOS rd (snd c)) \<Longrightarrow> True \<notin> set (fst (checkAll rd h chunks))"
proof (induction chunks arbitrary: rd)
  case Nil
  show ?case by simp
next
  case (Cons c chunks)
  obtain now chunk where c: "c = (now, chunk)" by (cases c)
  have os: "matchesOS rd chunk" using Cons.prems [of c] c by simp
  have rest: "True \<notin> set (fst (checkAll (snd (Check rd now h chunk)) h chunks))"
    by (rule Cons.IH) (simp add: matchesOS_Check Cons.prems)
  show ?case
    using Check_OS_False [OF os, of now h] rest
    by (simp add: c split_beta Let_def)
qed

text \<open>
  Claim C2. \<open>Check\<close> returns true only on a transition from the operating system to
  the firmware: the host had a record with \<open>inOS\<close> set, the chunk matched a boot
  rule (and no operating-system rule), and the record is left with \<open>inOS\<close> cleared.
  A run of chunks that all match an operating-system rule never returns true, whatever
  record the run starts from, and no chunk returns true while \<open>inOS\<close> is false.
\<close>

theorem reboot_only_on_os_to_firmware:
  "(fst (Check rd now h text) \<longrightarrow>
      (\<exists>st. states rd h = Some st \<and> inOS st) \<and> matchesBIOS rd text \<and> \<not> matchesOS rd text
      \<and> map_option inOS (states (snd (Check rd now h text)) h) = Some False)
   \<and> ((\<forall>c \<in> set chunks. matchesOS rd (snd c)) \<longrightarrow> True \<notin> set (fst (checkAll rd h chunks)))
   \<and> (\<not> inOS (lookupState rd h) \<longrightarrow> fst (Check rd now h text) = False)"
proof (intro conjI impI)
  assume t: "fst (Check rd now h text)"
  then show "\<exists>st. states rd h = Some st \<and> inOS st"
    by (simp add: Check_True_iff inOS_lookupState)
  from t show "matchesBIOS rd text" by (simp add: Check_True_iff)
  from t show "\<not> matchesOS rd text" by (simp add: Check_True_iff)
  from t show "map_option inOS (states (snd (Check rd now h text)) h) = Some False"
    by (simp add: Check_True_state)
next
  assume "\<forall>c \<in> set chunks. matchesOS rd (snd c)"
  then show "True \<notin> set (fst (checkAll rd h chunks))"
    by (intro checkAll_OS_False) blast
next
  assume "\<not> inOS (lookupState rd h)"
  then show "fst (Check rd now h text) = False"
    by (simp add: Check_True_iff)
qed

theorem reboot_only_on_os_to_firmware_witness:
  "fst (Check (MarkOSRunning (NewRebootDetector literalCompile []) ''node1'') 1000000000000 ''node1''
         ''American Megatrends'')
   \<and> (\<exists>st. states (MarkOSRunning (NewRebootDetector literalCompile []) ''node1'') ''node1'' = Some st \<and> inOS st)
   \<and> matchesBIOS (MarkOSRunning (NewRebootDetector literalCompile []) ''node1'') ''American Megatrends''
   \<and> matchesOS (NewRebootDetector literalCompile []) ''login:''
   \<and> matchesOS (NewRebootDetector literalCompile []) ''Welcome to Linux''
   \<and> True \<notin> set (fst (checkAll (NewRebootDetector literalCompile []) ''node1''
                          [(5::int, ''login:''), (6, ''Welcome to Linux'')]))
   \<and> \<not> inOS (lookupState (NewRebootDetector literalCompile []) ''node1'')
   \<and> fst (Check (NewRebootDetector literalCompile []) 1000000000000 ''node1'' ''American Megatrends'') = False"
proof -
  let ?new = "NewRebootDetector literalCompile []"
  let ?up = "MarkOSRunning ?new ''node1''"
  have a: "fst (Check ?up 1000000000000 ''node1'' ''American Megatrends'')"
    by code_simp
  have b1: "matchesOS ?new ''login:''"
    by code_simp
  have b2: "matchesOS ?new ''Welcome to Linux''"
    by code_simp
  have b: "\<forall>c \<in> set [(5::int, ''login:''), (6, ''Welcome to Linux'')]. matchesOS ?new (snd c)"
    using b1 b2 by simp
  have c: "\<not> inOS (lookupState ?new ''node1'')"
    by code_simp
  note thm1 = reboot_only_on_os_to_firmware
    [of ?up 1000000000000 "''node1''" "''American Megatrends''" "[]"]
  note thm2 = reboot_only_on_os_to_firmware
    [of ?new 1000000000000 "''node1''" "''American Megatrends''" "[(5::int, ''login:''), (6, ''Welcome to Linux'')]"]
  from a thm1 have a': "(\<exists>st. states ?up ''node1'' = Some st \<and> inOS st)
     \<and> matchesBIOS ?up ''American Megatrends''" by blast
  from b thm2 have b': "True \<notin> set (fst (checkAll ?new ''node1'' [(5::int, ''login:''), (6, ''Welcome to Linux'')]))"
    by blast
  from c thm2 have c': "fst (Check ?new 1000000000000 ''node1'' ''American Megatrends'') = False"
    by blast
  from a a' b1 b2 b' c c' show ?thesis by blast
qed

lemma Check_cooldown_False:
  "Since now (lastReboot (lookupState rd h)) < cooldown rd \<Longrightarrow> fst (Check rd now h chunk) = False"
  by (simp add: Check_def Let_def)

lemma Check_OS_state:
  "matchesOS rd chunk \<Longrightarrow>
     states (snd (Check rd now h chunk)) h = Some ((lookupState rd h)\<lparr>inOS := True\<rparr>)"
  by (simp add: Check_def Let_def)

lemma lookupState_Some: "states rd h = Some st \<Longrightarrow> lookupState rd h = st"
  by (simp add: lookupState_def)

lemma Check_cooldown_state:
  "Since now (lastReboot (lookupState rd h)) < cooldown rd \<Longrightarrow>
     lastReboot (lookupState (snd (Check rd now h chunk)) h) = lastReboot (lookupState rd h)"
  by (simp add: Check_def Let_def)

lemma checkAll_in_window:
  "(\<And>c. c \<in> set chunks \<Longrightarrow> Since (fst c) (lastReboot (lookupState rd h)) < cooldown rd) \<Longrightarrow>
     True \<notin> set (fst (checkAll rd h chunks))
     \<and> lastReboot (lookupState (snd (checkAll rd h chunks)) h) = lastReboot (lookupState rd h)"
proof (induction chunks arbitrary: rd)
  case Nil
  show ?case by simp
next
  case (Cons c chunks)
  obtain now chunk where c: "c = (now, chunk)" by (cases c)
  let ?rd' = "snd (Check rd now h chunk)"
  have w: "Since now (lastReboot (lookupState rd h)) < cooldown rd"
    using Cons.prems [of c] c by simp
  have same: "lastReboot (lookupState ?rd' h) = lastReboot (lookupState rd h)"
    by (rule Check_cooldown_state [OF w])
  have quiet: "fst (Check rd now h chunk) = False"
    by (rule Check_cooldown_False [OF w])
  have rest: "True \<notin> set (fst (checkAll ?rd' h chunks))
     \<and> lastReboot (lookupState (snd (checkAll ?rd' h chunks)) h) = lastReboot (lookupState ?rd' h)"
    by (rule Cons.IH) (simp add: same cooldown_Check Cons.prems)
  show ?case
    using quiet rest same by (simp add: c split_beta Let_def)
qed

text \<open>
  Claim C3. In a detector built by \<open>NewRebootDetector\<close> the cooldown is two minutes.
  A call of \<open>Check\<close> less than two minutes after the host's \<open>lastReboot\<close> returns
  false whatever the chunk matches, and leaves \<open>lastReboot\<close> as it was; a chunk that
  matches an operating-system rule still sets \<open>inOS\<close> during the cooldown. A call that
  returns true stores \<open>inOS = False\<close> and \<open>lastReboot = now\<close>, so the window opens
  at the detection: every call for the host less than two minutes after it returns false,
  along any run of chunks, also after a chunk in the window has set \<open>inOS\<close> again.
\<close>

theorem cooldown_suppresses_repeats:
  assumes "detector rd"
  shows "cooldown rd = 120 * Second
    \<and> (Since now (lastReboot (lookupState rd h)) < 120 * Second \<longrightarrow>
         fst (Check rd now h chunk) = False
         \<and> (matchesOS rd chunk \<longrightarrow>
              map_option inOS (states (snd (Check rd now h chunk)) h) = Some True))
    \<and> (fst (Check rd now h chunk) \<and> Since now' now < 120 * Second \<longrightarrow>
         fst (Check (snd (Check rd now h chunk)) now' h chunk') = False)
    \<and> (fst (Check rd now h chunk) \<longrightarrow>
         states (snd (Check rd now h chunk)) h = Some \<lparr>inOS = False, lastReboot = now\<rparr>)
    \<and> (Since now (lastReboot (lookupState rd h)) < 120 * Second \<longrightarrow>
         lastReboot (lookupState (snd (Check rd now h chunk)) h) = lastReboot (lookupState rd h))
    \<and> (fst (Check rd now h chunk) \<and> (\<forall>c \<in> set chunks. Since (fst c) now < 120 * Second) \<longrightarrow>
         True \<notin> set (fst (checkAll (snd (Check rd now h chunk)) h chunks))
         \<and> lastReboot (lookupState (snd (checkAll (snd (Check rd now h chunk)) h chunks)) h) = now)
    \<and> (fst (Check rd now h chunk) \<and> Since t1 now < 120 * Second \<and> matchesOS rd osChunk
          \<and> Since t2 now < 120 * Second \<longrightarrow>
         inOS (lookupState (snd (Check (snd (Check rd now h chunk)) t1 h osChunk)) h)
         \<and> fst (Check (snd (Check (snd (Check rd now h chunk)) t1 h osChunk)) t2 h bootChunk) = False)"
proof -
  let ?rd1 = "snd (Check rd now h chunk)"
  have cd: "cooldown rd = 120 * Second"
    using detector_cooldown [OF assms] by (simp add: Minute_def)
  have cd1: "cooldown ?rd1 = 120 * Second"
    using cd by (simp add: cooldown_Check)
  have in_window: "fst (Check rd now h chunk) = False"
    if "Since now (lastReboot (lookupState rd h)) < 120 * Second"
    using that cd by (simp add: Check_cooldown_False)
  have os: "map_option inOS (states (snd (Check rd now h chunk)) h) = Some True"
    if "matchesOS rd chunk"
    using that by (simp add: Check_OS_state)
  have stored: "states ?rd1 h = Some \<lparr>inOS = False, lastReboot = now\<rparr>"
    if t: "fst (Check rd now h chunk)"
    using Check_True_state [OF t] by simp
  have opened: "lastReboot (lookupState ?rd1 h) = now"
    if t: "fst (Check rd now h chunk)"
    using stored [OF t] by (simp add: lookupState_Some)
  have again: "fst (Check ?rd1 now' h chunk') = False"
    if t: "fst (Check rd now h chunk)" and w: "Since now' now < 120 * Second"
    using opened [OF t] cd1 w by (simp add: Check_cooldown_False)
  have kept: "lastReboot (lookupState (snd (Check rd now h chunk)) h) = lastReboot (lookupState rd h)"
    if "Since now (lastReboot (lookupState rd h)) < 120 * Second"
    using that cd by (simp add: Check_cooldown_state)
  have run: "True \<notin> set (fst (checkAll ?rd1 h chunks))
         \<and> lastReboot (lookupState (snd (checkAll ?rd1 h chunks)) h) = now"
    if t: "fst (Check rd now h chunk)"
      and w: "\<forall>c \<in> set chunks. Since (fst c) now < 120 * Second"
  proof -
    have "True \<notin> set (fst (checkAll ?rd1 h chunks))
      \<and> lastReboot (lookupState (snd (checkAll ?rd1 h chunks)) h) = lastReboot (lookupState ?rd1 h)"
      by (rule checkAll_in_window) (use w in \<open>simp add: opened [OF t] cd1\<close>)
    then show ?thesis
      by (simp add: opened [OF t])
  qed
  have rearmed: "inOS (lookupState (snd (Check ?rd1 t1 h osChunk)) h)
         \<and> fst (Check (snd (Check ?rd1 t1 h osChunk)) t2 h bootChunk) = False"
    if t: "fst (Check rd now h chunk)" and w1: "Since t1 now < 120 * Second"
      and m: "matchesOS rd osChunk" and w2: "Since t2 now < 120 * Second"
  proof -
    let ?rd2 = "snd (Check ?rd1 t1 h osChunk)"
    have m1: "matchesOS ?rd1 osChunk"
      using m by (simp add: matchesOS_Check)
    have in1: "Since t1 (lastReboot (lookupState ?rd1 h)) < cooldown ?rd1"
      using w1 by (simp add: opened [OF t] cd1)
    have set_again: "inOS (lookupState ?rd2 h)"
      using Check_OS_state [OF m1, of t1 h] by (simp add: lookupState_Some)
    have "lastReboot (lookupState ?rd2 h) = now"
      using Check_cooldown_state [OF in1, of osChunk] by (simp add: opened [OF t])
    moreover have "cooldown ?rd2 = 120 * Second"
      using cd1 by (simp add: cooldown_Check)
    ultimately have "fst (Check ?rd2 t2 h bootChunk) = False"
      using w2 by (simp add: Check_cooldown_False)
    with set_again show ?thesis by simp
  qed
  from cd in_window os again stored kept run rearmed show ?thesis by blast
qed

theorem cooldown_suppresses_repeats_witness:
  "detector (MarkOSRunning (NewRebootDetector literalCompile []) ''node1'')
   \<and> fst (Check (MarkOSRunning (NewRebootDetector literalCompile []) ''node1'')
            (500 * Second) ''node1'' ''American Megatrends'')
   \<and> states (snd (Check (MarkOSRunning (NewRebootDetector literalCompile []) ''node1'')
            (500 * Second) ''node1'' ''American Megatrends'')) ''node1''
       = Some \<lparr>inOS = False, lastReboot = 500 * Second\<rparr>
   \<and> Since (501 * Second) (500 * Second) < 120 * Second
   \<and> fst (Check (snd (Check (MarkOSRunning (NewRebootDetector literalCompile []) ''node1'')
                        (500 * Second) ''node1'' ''American Megatrends''))
            (501 * Second) ''node1'' ''American Megatrends'') = False
   \<and> matchesOS (MarkOSRunning (NewRebootDetector literalCompile []) ''node1'') ''login:''
   \<and> Since (502 * Second) (500 * Second) < 120 * Second
   \<and> inOS (lookupState (snd (Check (snd (Check (MarkOSRunning (NewRebootDetector literalCompile [])
         ''node1'') (500 * Second) ''node1'' ''American Megatrends''))
         (501 * Second) ''node1'' ''login:'')) ''node1'')
   \<and> fst (Check (snd (Check (snd (Check (MarkOSRunning (NewRebootDetector literalCompile [])
         ''node1'') (500 * Second) ''node1'' ''American Megatrends''))
         (501 * Second) ''node1'' ''login:'')) (502 * Second) ''node1'' ''American Megatrends'') = False
   \<and> True \<notin> set (fst (checkAll (snd (Check (MarkOSRunning (NewRebootDetector literalCompile [])
         ''node1'') (500 * Second) ''node1'' ''American Megatrends'')) ''node1''
         [(501 * Second, ''login:''), (502 * Second, ''American Megatrends'')]))
   \<and> Since (5 * Second) (lastReboot (lookupState (NewRebootDetector literalCompile []) ''node1''))
        < 120 * Second
   \<and> matchesOS (NewRebootDetector literalCompile []) ''login:''
   \<and> fst (Check (NewRebootDetector literalCompile []) (5 * Second) ''node1'' ''login:'') = False
   \<and> map_option inOS (states (snd (Check (NewRebootDetector literalCompile []) (5 * Second)
         ''node1'' ''login:'')) ''node1'') = Some True"
proof -
  let ?new = "NewRebootDetector literalCompile []"
  let ?up = "MarkOSRunning ?new ''node1''"
  let ?rd1 = "snd (Check ?up (500 * Second) ''node1'' ''American Megatrends'')"
  let ?run = "[(501 * Second, ''login:''), (502 * Second, ''American Megatrends'')]"
  have d0: "detector ?new" by (rule detector.new)
  have d1: "detector ?up" by (rule detector.mark) (rule detector.new)
  have a: "fst (Check ?up (500 * Second) ''node1'' ''American Megatrends'')"
    by code_simp
  have w: "Since (501 * Second) (500 * Second) < 120 * Second"
    by code_simp
  have w2: "Since (502 * Second) (500 * Second) < 120 * Second"
    by code_simp
  have w0: "Since (5 * Second) (lastReboot (lookupState ?new ''node1'')) < 120 * Second"
    by code_simp
  have os: "matchesOS ?new ''login:''"
    by code_simp
  have os1: "matchesOS ?up ''login:''"
    by code_simp
  have ws: "\<forall>c \<in> set ?run. Since (fst c) (500 * Second) < 120 * Second"
    using w w2 by simp
  note up = cooldown_suppresses_repeats
    [OF d1, where now = "500 * Second" and h = "''node1''" and chunk = "''American Megatrends''"
       and now' = "501 * Second" and chunk' = "''American Megatrends''" and chunks = ?run
       and ?t1.0 = "501 * Second" and osChunk = "''login:''" and ?t2.0 = "502 * Second"
       and bootChunk = "''American Megatrends''"]
  note new = cooldown_suppresses_repeats
    [OF d0, where now = "5 * Second" and h = "''node1''" and chunk = "''login:''"]
  from up a have r0: "states ?rd1 ''node1'' = Some \<lparr>inOS = False, lastReboot = 500 * Second\<rparr>"
    by blast
  from up a w have r1: "fst (Check ?rd1 (501 * Second) ''node1'' ''American Megatrends'') = False"
    by blast
  from up a w os1 w2
  have r3: "inOS (lookupState (snd (Check ?rd1 (501 * Second) ''node1'' ''login:'')) ''node1'')
     \<and> fst (Check (snd (Check ?rd1 (501 * Second) ''node1'' ''login:'')) (502 * Second) ''node1''
            ''American Megatrends'') = False"
    by blast
  from up a ws have r4: "True \<notin> set (fst (checkAll ?rd1 ''node1'' ?run))"
    by blast
  from new w0 os have r2: "fst (Check ?new (5 * Second) ''node1'' ''login:'') = False
     \<and> map_option inOS (states (snd (Check ?new (5 * Second) ''node1'' ''login:'')) ''node1'') = Some True"
    by blast
  from d1 a r0 w r1 os1 w2 r3 r4 w0 os r2 show ?thesis by blast
qed

text \<open>
  Claim C6. A chunk that matches both an operating-system rule and a boot rule is
  read as operating-system output: \<open>Check\<close> returns false and leaves the host's record
  with \<open>inOS\<close> set and \<open>lastReboot\<close> as it was.
\<close>

theorem os_rule_wins_over_boot_rule:
  assumes "matchesOS rd chunk" and "matchesBIOS rd chunk"
  shows "fst (Check rd now h chunk) = False
    \<and> states (snd (Check rd now h chunk)) h = Some ((lookupState rd h)\<lparr>inOS := True\<rparr>)"
  using assms by (simp add: Check_OS_False Check_OS_state)

theorem os_rule_wins_over_boot_rule_witness:
  "matchesOS (MarkOSRunning (NewRebootDetector literalCompile []) ''node1'') ''Supermicro login:''
   \<and> matchesBIOS (MarkOSRunning (NewRebootDetector literalCompile []) ''node1'') ''Supermicro login:''
   \<and> fst (Check (MarkOSRunning (NewRebootDetector literalCompile []) ''node1'') (500 * Second)
            ''node1'' ''Supermicro login:'') = False
   \<and> states (snd (Check (MarkOSRunning (NewRebootDetector literalCompile []) ''node1'') (500 * Second)
            ''node1'' ''Supermicro login:'')) ''node1''
       = Some ((lookupState (MarkOSRunning (NewRebootDetector literalCompile []) ''node1'') ''node1'')
                 \<lparr>inOS := True\<rparr>)"
proof -
  let ?up = "MarkOSRunning (NewRebootDetector literalCompile []) ''node1''"
  have os: "matchesOS ?up ''Supermicro login:''" by code_simp
  have bios: "matchesBIOS ?up ''Supermicro login:''" by code_simp
  from os bios os_rule_wins_over_boot_rule [OF os bios, of "500 * Second" "''node1''"]
  show ?thesis by blast
qed

text \<open>
  Claim C10. \<open>Check\<close> and \<open>MarkOSRunning\<close> on one host leave the record of every
  other host as it was, and \<open>MarkOSRunning\<close> sets \<open>inOS\<close> and nothing else: the
  host's \<open>lastReboot\<close> (the zero time when the host had no record) is unchanged, and
  so is the detector's cooldown.
\<close>

theorem classifier_frame:
  "(h' \<noteq> h \<longrightarrow>
      states (snd (Check rd now h chunk)) h' = states rd h'
      \<and> states (MarkOSRunning rd h) h' = states rd h')
   \<and> states (MarkOSRunning rd h) h = Some ((lookupState rd h)\<lparr>inOS := True\<rparr>)
   \<and> lastReboot (lookupState (MarkOSRunning rd h) h) = lastReboot (lookupState rd h)
   \<and> inOS (lookupState (MarkOSRunning rd h) h)
   \<and> cooldown (MarkOSRunning rd h) = cooldown rd"
  by (simp add: Check_def MarkOSRunning_def lookupState_def Let_def split: option.splits)

theorem classifier_frame_witness:
  "''node2'' \<noteq> ''node1''
   \<and> states (snd (Check (MarkOSRunning (MarkOSRunning (NewRebootDetector literalCompile []) ''node1'') ''node2'')
         (500 * Second) ''node1'' ''American Megatrends'')) ''node2''
       = states (MarkOSRunning (MarkOSRunning (NewRebootDetector literalCompile []) ''node1'') ''node2'') ''node2''
   \<and> states (MarkOSRunning (MarkOSRunning (MarkOSRunning (NewRebootDetector literalCompile []) ''node1'') ''node2'') ''node1'') ''node2''
       = states (MarkOSRunning (MarkOSRunning (NewRebootDetector literalCompile []) ''node1'') ''node2'') ''node2''"
proof -
  have ne: "''node2'' \<noteq> ''node1''" by simp
  from ne classifier_frame
    [of "''node2''" "''node1''"
        "MarkOSRunning (MarkOSRunning (NewRebootDetector literalCompile []) ''node1'') ''node2''"
        "500 * Second" "''American Megatrends''"]
  show ?thesis by blast
qed

section \<open>Facts about the log store\<close>

lemma map_fst_appendTo [simp]: "map fst (appendTo d f data now) = map fst d"
  by (induction d f data now rule: appendTo.induct) (auto split: entry.splits)

lemma map_of_appendTo:
  "map_of (appendTo d f data now) name =
     (if name = f
      then (case map_of d f of
              Some (File c t w) \<Rightarrow> Some (File (c @ data) now w)
            | other \<Rightarrow> other)
      else map_of d name)"
  by (induction d f data now rule: appendTo.induct) (auto split: entry.splits option.splits)

lemma hostDir_putDir_same [simp]: "hostDir (putDir tree h d) h = Some d"
  by (simp add: hostDir_def putDir_def update_conv')

lemma hostDir_putDir_other [simp]: "h' \<noteq> h \<Longrightarrow> hostDir (putDir tree h d) h' = hostDir tree h'"
  by (simp add: hostDir_def putDir_def update_conv')

lemma hostDir_MkdirAll:
  "MkdirAll tree h = Some tree' \<Longrightarrow>
     hostDir tree' h = Some (case hostDir tree h of Some d \<Rightarrow> d | None \<Rightarrow> [])"
  by (auto simp: MkdirAll_def hostDir_def map_add_def split: option.splits node.splits)

lemma MkdirAll_existing: "hostDir tree h = Some d \<Longrightarrow> MkdirAll tree h = Some tree"
  by (auto simp: MkdirAll_def hostDir_def split: option.splits node.splits)

lemma Readlink_appendTo [simp]:
  "Readlink (appendTo d f data now) name = Readlink d name"
  by (auto simp: Readlink_def map_of_appendTo split: option.splits entry.splits)

text \<open>The resuming branch of \<open>Write\<close>.\<close>

lemma Write_resume:
  assumes closed: "files w h = None"
    and dir: "hostDir (disk w) h = Some d"
    and link: "Readlink d ''current.log'' = Some target"
    and opens: "OpenAppend d target"
  shows "Write layout w now h data =
           (None, w\<lparr>files := (files w)(h \<mapsto> target),
                     disk := putDir (disk w) h (appendTo d target data now)\<rparr>)"
  using assms
  by (simp add: Write_def getOrCreateFile_def MkdirAll_existing fileWrite_def Let_def)

lemma Rotate_files [simp]: "files (snd (Rotate w h)) h = None"
  by (simp add: Rotate_def split: option.splits)

lemma Rotate_disk [simp]: "disk (snd (Rotate w h)) = disk w"
  by (simp add: Rotate_def split: option.splits)

lemma Rotate_ok [simp]: "fst (Rotate w h) = None"
  by (simp add: Rotate_def split: option.splits)

lemma map_of_OpenCreate:
  "OpenCreate d f now = Some d1 \<Longrightarrow>
     map_of d1 n =
       (if n = f
        then Some (File (case map_of d f of Some (File c t w) \<Rightarrow> c | _ \<Rightarrow> [])
                        (case map_of d f of Some (File c t w) \<Rightarrow> t | _ \<Rightarrow> now) True)
        else map_of d n)"
  by (auto simp: OpenCreate_def map_add_def split: option.splits entry.splits if_splits)

lemma map_of_Remove:
  "map_of (Remove d name) n =
     (case map_of d name of
        Some (SubDir False t) \<Rightarrow> map_of d n
      | _ \<Rightarrow> if n = name then None else map_of d n)"
  by (auto simp: Remove_def delete_conv' split: option.splits entry.splits bool.splits)

lemma map_of_Symlink:
  "map_of (Symlink d target name now) n =
     (case map_of d name of
        None \<Rightarrow> if n = name then Some (Link target now) else map_of d n
      | Some e \<Rightarrow> map_of d n)"
  by (auto simp: Symlink_def map_add_def split: option.splits)

text \<open>The creating branch of \<open>Write\<close>.\<close>

lemma Write_create:
  assumes closed: "files w h = None"
    and mk: "MkdirAll (disk w) h = Some tree"
    and dir: "hostDir tree h = Some d"
    and none: "\<not> (\<exists>target. Readlink d ''current.log'' = Some target \<and> OpenAppend d target)"
    and opens: "OpenCreate d (layout (now div Second) @ ''.log'') now = Some d1"
  shows "Write layout w now h data =
           (None, w\<lparr>files := (files w)(h \<mapsto> layout (now div Second) @ ''.log''),
                     disk := putDir (putDir tree h
                               (Symlink (Remove d1 ''current.log'') (layout (now div Second) @ ''.log'')
                                  ''current.log'' now)) h
                               (appendTo (Symlink (Remove d1 ''current.log'')
                                  (layout (now div Second) @ ''.log'') ''current.log'' now)
                                  (layout (now div Second) @ ''.log'') data now)\<rparr>)"
  using assms
  by (cases "Readlink d ''current.log''")
     (simp_all add: Write_def getOrCreateFile_def createLogFile_def fileWrite_def Let_def)

lemma Write_create_failed:
  assumes closed: "files w h = None"
    and mk: "MkdirAll (disk w) h = Some tree"
    and dir: "hostDir tree h = Some d"
    and none: "\<not> (\<exists>target. Readlink d ''current.log'' = Some target \<and> OpenAppend d target)"
    and opens: "OpenCreate d (layout (now div Second) @ ''.log'') now = None"
  shows "Write layout w now h data = (Some CreateFailed, w\<lparr>disk := tree\<rparr>)"
  using assms
  by (cases "Readlink d ''current.log''")
     (simp_all add: Write_def getOrCreateFile_def createLogFile_def fileWrite_def Let_def)

lemma map_of_None_iff_names: "map_of d n = None \<longleftrightarrow> n \<notin> set (map fst d)"
  by (simp add: map_of_eq_None_iff)

lemma MkdirAll_ok: "map_of tree h \<noteq> Some Other \<Longrightarrow> \<exists>tree'. MkdirAll tree h = Some tree'"
  by (auto simp: MkdirAll_def split: option.splits node.splits)

lemma OpenAppend_File: "OpenAppend d target \<longleftrightarrow> (\<exists>c t. map_of d target = Some (File c t True))"
  by (auto simp: OpenAppend_def split: option.splits entry.splits)

lemma Readlink_Some_dir:
  "Readlink (case hostDir tree h of Some d \<Rightarrow> d | None \<Rightarrow> []) name = Some target \<Longrightarrow>
     hostDir tree h = Some (case hostDir tree h of Some d \<Rightarrow> d | None \<Rightarrow> [])"
  by (auto simp: Readlink_def split: option.splits)

text \<open>
  Claim C4. A write for a host with no open handle first reads the \<^verbatim>\<open>current.log\<close>
  link. When the link names a file of the host's directory that opens for appending,
  the bytes go to the end of that file, the handle is on it and the directory has the
  names it had: no file is created. When there is no such file and the new file opens,
  the handle is on the file named by the layout of the current second, the link names
  that file and the bytes are at its end. A name that is new after the write is there
  only if the link could not be followed to a file that opens.
\<close>

theorem write_resumes_or_creates:
  assumes closed: "files w h = None"
    and mk: "map_of (disk w) h \<noteq> Some Other"
    and d: "d = (case hostDir (disk w) h of Some d \<Rightarrow> d | None \<Rightarrow> [])"
    and w': "w' = snd (Write layout w now h data)"
    and fn: "filename = layout (now div Second) @ ''.log''"
  shows "(Readlink d ''current.log'' = Some target \<and> map_of d target = Some (File c t True) \<longrightarrow>
            fst (Write layout w now h data) = None
          \<and> files w' h = Some target
          \<and> (\<exists>d'. hostDir (disk w') h = Some d'
                \<and> map fst d' = map fst d
                \<and> Readlink d' ''current.log'' = Some target
                \<and> map_of d' target = Some (File (c @ data) now True)
                \<and> (\<forall>n. n \<noteq> target \<longrightarrow> map_of d' n = map_of d n)))
       \<and> (\<not> (\<exists>target. Readlink d ''current.log'' = Some target \<and> OpenAppend d target)
            \<and> OpenCreate d filename now \<noteq> None
            \<and> filename \<noteq> ''current.log''
            \<and> (\<forall>t. map_of d ''current.log'' \<noteq> Some (SubDir False t)) \<longrightarrow>
            fst (Write layout w now h data) = None
          \<and> files w' h = Some filename
          \<and> (\<exists>d'. hostDir (disk w') h = Some d'
                \<and> Readlink d' ''current.log'' = Some filename
                \<and> map_of d' filename =
                    Some (File ((case map_of d filename of Some (File c t w) \<Rightarrow> c | _ \<Rightarrow> []) @ data)
                            now True)
                \<and> (\<forall>n. n \<noteq> filename \<and> n \<noteq> ''current.log'' \<longrightarrow> map_of d' n = map_of d n)))
       \<and> ((\<exists>n. lookupEntry (disk w') h n \<noteq> None \<and> map_of d n = None) \<longrightarrow>
            \<not> (\<exists>target. Readlink d ''current.log'' = Some target \<and> OpenAppend d target))"
proof -
  have resume: "fst (Write layout w now h data) = None
          \<and> files w' h = Some target
          \<and> (\<exists>d'. hostDir (disk w') h = Some d'
                \<and> map fst d' = map fst d
                \<and> Readlink d' ''current.log'' = Some target
                \<and> map_of d' target = Some (File (c @ data) now True)
                \<and> (\<forall>n. n \<noteq> target \<longrightarrow> map_of d' n = map_of d n))"
    if link: "Readlink d ''current.log'' = Some target"
      and isfile: "map_of d target = Some (File c t True)" for target c t
  proof -
    have dir: "hostDir (disk w) h = Some d"
      using link Readlink_Some_dir [of "disk w" h "''current.log''" target] d by simp
    have opens: "OpenAppend d target"
      using isfile by (auto simp: OpenAppend_File)
    have eq: "Write layout w now h data =
           (None, w\<lparr>files := (files w)(h \<mapsto> target),
                     disk := putDir (disk w) h (appendTo d target data now)\<rparr>)"
      by (rule Write_resume [OF closed dir link opens])
    let ?d' = "appendTo d target data now"
    have st: "w' = w\<lparr>files := (files w)(h \<mapsto> target), disk := putDir (disk w) h ?d'\<rparr>"
      by (simp only: w' eq snd_conv)
    have q1: "fst (Write layout w now h data) = None"
      by (simp only: eq fst_conv)
    have q2: "files w' h = Some target"
      by (simp add: st)
    have q3: "hostDir (disk w') h = Some ?d'"
      by (simp add: st)
    have q5: "map_of ?d' target = Some (File (c @ data) now True)"
      by (simp add: map_of_appendTo isfile)
    have q6: "map_of ?d' n = map_of d n" if "n \<noteq> target" for n
      using that by (simp add: map_of_appendTo)
    show ?thesis
      by (intro conjI exI [of _ ?d'] allI impI) (simp_all add: q1 q2 q3 link q5 q6)
  qed
  have create: "fst (Write layout w now h data) = None
          \<and> files w' h = Some filename
          \<and> (\<exists>d'. hostDir (disk w') h = Some d'
                \<and> Readlink d' ''current.log'' = Some filename
                \<and> map_of d' filename =
                    Some (File ((case map_of d filename of Some (File c t w) \<Rightarrow> c | _ \<Rightarrow> []) @ data)
                            now True)
                \<and> (\<forall>n. n \<noteq> filename \<and> n \<noteq> ''current.log'' \<longrightarrow> map_of d' n = map_of d n))"
    if none: "\<not> (\<exists>target. Readlink d ''current.log'' = Some target \<and> OpenAppend d target)"
      and opens: "OpenCreate d filename now \<noteq> None"
      and ne: "filename \<noteq> ''current.log''"
      and nodir: "\<forall>t. map_of d ''current.log'' \<noteq> Some (SubDir False t)"
  proof -
    let ?f = "layout (now div Second) @ ''.log''"
    obtain tree where tree: "MkdirAll (disk w) h = Some tree"
      using MkdirAll_ok [OF mk] by blast
    have dir: "hostDir tree h = Some d"
      using hostDir_MkdirAll [OF tree] d by simp
    obtain d1 where d1: "OpenCreate d ?f now = Some d1"
      using opens fn by auto
    let ?d2 = "Symlink (Remove d1 ''current.log'') ?f ''current.log'' now"
    let ?d3 = "appendTo ?d2 ?f data now"
    have eq: "Write layout w now h data =
        (None, w\<lparr>files := (files w)(h \<mapsto> ?f), disk := putDir (putDir tree h ?d2) h ?d3\<rparr>)"
      by (rule Write_create [where layout = layout and now = now and data = data,
            OF closed tree dir none d1])
    have ne': "?f \<noteq> ''current.log''"
      using ne fn by simp
    have cur1: "map_of d1 ''current.log'' = map_of d ''current.log''"
      using map_of_OpenCreate [OF d1, of "''current.log''"] ne' by simp
    have removed: "map_of (Remove d1 ''current.log'') n =
        (if n = ''current.log'' then None else map_of d1 n)" for n
      using nodir cur1
      by (cases "map_of d ''current.log''")
         (auto simp: map_of_Remove split: entry.splits bool.splits)
    have linked: "map_of ?d2 n =
        (if n = ''current.log'' then Some (Link ?f now) else map_of d1 n)" for n
      by (simp only: map_of_Symlink removed) simp
    have new_file: "map_of d1 ?f =
        Some (File (case map_of d ?f of Some (File c t w) \<Rightarrow> c | _ \<Rightarrow> [])
                   (case map_of d ?f of Some (File c t w) \<Rightarrow> t | _ \<Rightarrow> now) True)"
      using map_of_OpenCreate [OF d1, of ?f] by simp
    have others1: "map_of d1 n = map_of d n" if "n \<noteq> ?f" for n
      using map_of_OpenCreate [OF d1, of n] that by simp
    have r1: "fst (Write layout w now h data) = None"
      by (simp only: eq fst_conv)
    have st: "w' = w\<lparr>files := (files w)(h \<mapsto> ?f), disk := putDir (putDir tree h ?d2) h ?d3\<rparr>"
      by (simp only: w' eq snd_conv)
    have r2: "files w' h = Some ?f"
      by (simp add: st)
    have r3: "hostDir (disk w') h = Some ?d3"
      by (simp add: st)
    have r4: "Readlink ?d2 ''current.log'' = Some ?f"
      by (simp add: Readlink_def linked)
    have r5: "map_of ?d3 ?f =
        Some (File ((case map_of d ?f of Some (File c t w) \<Rightarrow> c | _ \<Rightarrow> []) @ data) now True)"
      using ne' by (simp add: map_of_appendTo linked new_file)
    have r6: "map_of ?d3 n = map_of d n" if "n \<noteq> ?f" "n \<noteq> ''current.log''" for n
      using that by (simp add: map_of_appendTo linked others1)
    show ?thesis
      unfolding fn
      by (intro conjI exI [of _ ?d3] allI impI) (simp_all add: r1 r2 r3 r4 r5 r6)
  qed
  have only_if: "\<not> (\<exists>target. Readlink d ''current.log'' = Some target \<and> OpenAppend d target)"
    if new: "\<exists>n. lookupEntry (disk w') h n \<noteq> None \<and> map_of d n = None"
  proof
    assume "\<exists>target. Readlink d ''current.log'' = Some target \<and> OpenAppend d target"
    then obtain target c t where link: "Readlink d ''current.log'' = Some target"
      and isfile: "map_of d target = Some (File c t True)"
      by (auto simp: OpenAppend_File)
    from resume [OF link isfile] obtain d' where d': "hostDir (disk w') h = Some d'"
      and names: "map fst d' = map fst d"
      by blast
    from new obtain n where n: "map_of d' n \<noteq> None" "map_of d n = None"
      by (auto simp: lookupEntry_def d')
    then show False
      using names by (simp add: map_of_None_iff_names)
  qed
  show ?thesis
  proof (rule conjI [OF _ conjI])
    show "Readlink d ''current.log'' = Some target \<and> map_of d target = Some (File c t True) \<longrightarrow>
            fst (Write layout w now h data) = None
          \<and> files w' h = Some target
          \<and> (\<exists>d'. hostDir (disk w') h = Some d'
                \<and> map fst d' = map fst d
                \<and> Readlink d' ''current.log'' = Some target
                \<and> map_of d' target = Some (File (c @ data) now True)
                \<and> (\<forall>n. n \<noteq> target \<longrightarrow> map_of d' n = map_of d n))"
      using resume [of target c t] by (rule_tac impI) (elim conjE, assumption)
  next
    show "\<not> (\<exists>target. Readlink d ''current.log'' = Some target \<and> OpenAppend d target)
            \<and> OpenCreate d filename now \<noteq> None
            \<and> filename \<noteq> ''current.log''
            \<and> (\<forall>t. map_of d ''current.log'' \<noteq> Some (SubDir False t)) \<longrightarrow>
            fst (Write layout w now h data) = None
          \<and> files w' h = Some filename
          \<and> (\<exists>d'. hostDir (disk w') h = Some d'
                \<and> Readlink d' ''current.log'' = Some filename
                \<and> map_of d' filename =
                    Some (File ((case map_of d filename of Some (File c t w) \<Rightarrow> c | _ \<Rightarrow> []) @ data)
                            now True)
                \<and> (\<forall>n. n \<noteq> filename \<and> n \<noteq> ''current.log'' \<longrightarrow> map_of d' n = map_of d n))"
      using create by (rule_tac impI) (elim conjE, assumption)
  next
    show "(\<exists>n. lookupEntry (disk w') h n \<noteq> None \<and> map_of d n = None) \<longrightarrow>
            \<not> (\<exists>target. Readlink d ''current.log'' = Some target \<and> OpenAppend d target)"
      using only_if by (rule_tac impI)
  qed
qed

lemma sampleWriter_disk:
  "disk sampleWriter =
     [(''node1'', HostDir [(''2024-01-01_00-00-00.log'', File ''boot 1'' newYear True),
                           (''current.log'', Link ''2024-01-01_00-00-00.log'' newYear)])]"
  by code_simp

lemma sampleWriter_files: "files sampleWriter ''node1'' = Some ''2024-01-01_00-00-00.log''"
  by code_simp

text \<open>
  Claim C1, at a failing input. The store writes for \<^verbatim>\<open>node1\<close>, rotates, and writes
  again an hour later. \<open>Rotate\<close> closes the handle and returns no error, but the second
  write follows the \<^verbatim>\<open>current.log\<close> link back to the file of the first write: the
  bytes are appended to it, the directory still holds that one file, and the link names
  it as before.
\<close>

theorem rotate_then_write_reopens_current:
  "fst (Rotate sampleWriter ''node1'') = None
   \<and> files (snd (Rotate sampleWriter ''node1'')) ''node1'' = None
   \<and> fst (Write utcLayout (snd (Rotate sampleWriter ''node1'')) (newYear + 3600 * Second)
            ''node1'' ''boot 2'') = None
   \<and> files (snd (Write utcLayout (snd (Rotate sampleWriter ''node1'')) (newYear + 3600 * Second)
            ''node1'' ''boot 2'')) ''node1'' = Some ''2024-01-01_00-00-00.log''
   \<and> disk (snd (Write utcLayout (snd (Rotate sampleWriter ''node1'')) (newYear + 3600 * Second)
            ''node1'' ''boot 2''))
       = [(''node1'', HostDir [(''2024-01-01_00-00-00.log'',
                                  File ''boot 1boot 2'' (newYear + 3600 * Second) True),
                               (''current.log'', Link ''2024-01-01_00-00-00.log'' newYear)])]"
  by code_simp

text \<open>The same in general: after \<open>Rotate\<close>, a write resumes whatever file the link names.\<close>

lemma Rotate_then_Write_resumes:
  assumes dir: "hostDir (disk w) h = Some d"
    and link: "Readlink d ''current.log'' = Some target"
    and opens: "OpenAppend d target"
  shows "Write layout (snd (Rotate w h)) now h data =
           (None, (snd (Rotate w h))\<lparr>files := (files (snd (Rotate w h)))(h \<mapsto> target),
                     disk := putDir (disk w) h (appendTo d target data now)\<rparr>)"
  using Write_resume [of "snd (Rotate w h)" h d target layout now data] assms
  by simp

theorem write_resumes_or_creates_witness:
  "files restartedWriter ''node1'' = None
   \<and> Readlink [(''2024-01-01_00-00-00.log'', File ''boot 1'' newYear True),
                (''current.log'', Link ''2024-01-01_00-00-00.log'' newYear)] ''current.log''
        = Some ''2024-01-01_00-00-00.log''
   \<and> fst (Write utcLayout restartedWriter (newYear + 3600 * Second) ''node1'' ''boot 2'') = None
   \<and> files (snd (Write utcLayout restartedWriter (newYear + 3600 * Second) ''node1'' ''boot 2''))
        ''node1'' = Some ''2024-01-01_00-00-00.log''
   \<and> files (NewWriter [] 7) ''node1'' = None
   \<and> OpenCreate [] (utcLayout (newYear div Second) @ ''.log'') newYear \<noteq> None
   \<and> fst (Write utcLayout (NewWriter [] 7) newYear ''node1'' ''boot 1'') = None
   \<and> files (snd (Write utcLayout (NewWriter [] 7) newYear ''node1'' ''boot 1'')) ''node1''
        = Some (utcLayout (newYear div Second) @ ''.log'')
   \<and> utcLayout (newYear div Second) @ ''.log'' = ''2024-01-01_00-00-00.log''"
proof -
  let ?f = "''2024-01-01_00-00-00.log''"
  let ?d = "[(?f, File ''boot 1'' newYear True), (''current.log'', Link ?f newYear)]"
  let ?later = "newYear + 3600 * Second"
  have a1: "files restartedWriter ''node1'' = None"
    by (simp add: restartedWriter_def NewWriter_def)
  have a2: "map_of (disk restartedWriter) ''node1'' \<noteq> Some Other"
    by (simp add: restartedWriter_def NewWriter_def sampleWriter_disk)
  have a3: "?d = (case hostDir (disk restartedWriter) ''node1'' of Some d \<Rightarrow> d | None \<Rightarrow> [])"
    by (simp add: restartedWriter_def NewWriter_def sampleWriter_disk hostDir_def)
  have link: "Readlink ?d ''current.log'' = Some ?f"
    by (simp add: Readlink_def)
  have isfile: "map_of ?d ?f = Some (File ''boot 1'' newYear True)"
    by simp
  note resume = write_resumes_or_creates
    [where w = restartedWriter and h = "''node1''" and d = ?d and layout = utcLayout
       and now = ?later and data = "''boot 2''" and target = ?f and c = "''boot 1''"
       and t = newYear, OF a1 a2 a3 refl refl]
  from resume link isfile
  have r: "fst (Write utcLayout restartedWriter ?later ''node1'' ''boot 2'') = None
     \<and> files (snd (Write utcLayout restartedWriter ?later ''node1'' ''boot 2'')) ''node1'' = Some ?f"
    by blast
  have b1: "files (NewWriter [] 7) ''node1'' = None"
    by (simp add: NewWriter_def)
  have b2: "map_of (disk (NewWriter [] 7)) ''node1'' \<noteq> Some Other"
    by (simp add: NewWriter_def)
  have b3: "[] = (case hostDir (disk (NewWriter [] 7)) ''node1'' of Some d \<Rightarrow> d | None \<Rightarrow> [])"
    by (simp add: NewWriter_def hostDir_def)
  have name: "utcLayout (newYear div Second) @ ''.log'' = ?f"
    by code_simp
  have c1: "\<not> (\<exists>target. Readlink [] ''current.log'' = Some target \<and> OpenAppend [] target)"
    by (simp add: Readlink_def)
  have c2: "OpenCreate [] (utcLayout (newYear div Second) @ ''.log'') newYear \<noteq> None"
    by (simp add: OpenCreate_def)
  have c3: "utcLayout (newYear div Second) @ ''.log'' \<noteq> ''current.log''"
    by (simp add: name)
  have c4: "\<forall>t. map_of [] ''current.log'' \<noteq> Some (SubDir False t)"
    by simp
  note create = write_resumes_or_creates
    [where w = "NewWriter [] 7" and h = "''node1''" and d = "[]" and layout = utcLayout
       and now = newYear and data = "''boot 1''", OF b1 b2 b3 refl refl]
  from create c1 c2 c3 c4
  have s: "fst (Write utcLayout (NewWriter [] 7) newYear ''node1'' ''boot 1'') = None
     \<and> files (snd (Write utcLayout (NewWriter [] 7) newYear ''node1'' ''boot 1'')) ''node1''
          = Some (utcLayout (newYear div Second) @ ''.log'')"
    by blast
  from a1 link r b1 c2 s name show ?thesis
    by blast
qed





lemma wfDisk_hostDir: "wfDisk tree \<Longrightarrow> hostDir tree h = Some d \<Longrightarrow> distinct (map fst d)"
proof -
  assume wf: "wfDisk tree" and dir: "hostDir tree h = Some d"
  from dir have "map_of tree h = Some (HostDir d)"
    by (auto simp: hostDir_def split: option.splits node.splits)
  then have "(h, HostDir d) \<in> set tree"
    by (rule map_of_SomeD)
  with wf show ?thesis
    by (auto simp: wfDisk_def list_all_iff)
qed


lemma wfDisk_iff:
  "wfDisk tree \<longleftrightarrow>
     distinct (map fst tree) \<and> (\<forall>h d. (h, HostDir d) \<in> set tree \<longrightarrow> distinct (map fst d))"
  by (auto simp: wfDisk_def list_all_iff split: node.splits)

lemma set_update_cases:
  "x \<in> set (AList.update k v al) \<Longrightarrow> x = (k, v) \<or> x \<in> set al"
  by (induction al) (auto split: if_splits)

lemma wfDisk_putDir:
  "wfDisk tree \<Longrightarrow> distinct (map fst d) \<Longrightarrow> wfDisk (putDir tree h d)"
  unfolding wfDisk_iff putDir_def
  by (auto simp: distinct_update dest!: set_update_cases)

lemma wfDisk_MkdirAll: "wfDisk tree \<Longrightarrow> MkdirAll tree h = Some tree' \<Longrightarrow> wfDisk tree'"
  unfolding wfDisk_iff
  by (auto simp: MkdirAll_def map_of_eq_None_iff split: option.splits node.splits)

lemma distinct_OpenCreate:
  "distinct (map fst d) \<Longrightarrow> OpenCreate d f now = Some d1 \<Longrightarrow> distinct (map fst d1)"
  by (auto simp: OpenCreate_def map_of_eq_None_iff split: option.splits entry.splits if_splits)

lemma distinct_Remove: "distinct (map fst d) \<Longrightarrow> distinct (map fst (Remove d name))"
  by (auto simp: Remove_def distinct_delete split: option.splits entry.splits bool.splits)

lemma distinct_Symlink: "distinct (map fst d) \<Longrightarrow> distinct (map fst (Symlink d target name now))"
  by (auto simp: Symlink_def map_of_eq_None_iff split: option.splits)

lemma distinct_cleanupFiles:
  "distinct (map fst d) \<Longrightarrow> distinct (map fst (cleanupFiles cutoff es d))"
  by (induction cutoff es d rule: cleanupFiles.induct)
     (auto simp: distinct_Remove split: option.splits)

lemma wfDisk_cleanupServers: "wfDisk tree \<Longrightarrow> wfDisk (cleanupServers cutoff tree)"
proof -
  have keys: "map fst (cleanupServers cutoff tree) = map fst tree" for tree
    by (induction cutoff tree rule: cleanupServers.induct) (auto split: node.splits)
  have dirs: "(h, HostDir d) \<in> set (cleanupServers cutoff tree) \<Longrightarrow>
      \<exists>d0. (h, HostDir d0) \<in> set tree \<and> d = cleanupFiles cutoff d0 d0" for tree h d
    by (induction cutoff tree rule: cleanupServers.induct) (auto split: node.splits)
  assume "wfDisk tree"
  then show ?thesis
    unfolding wfDisk_iff using dirs by (fastforce simp: keys distinct_cleanupFiles)
qed

text \<open>
  The operations of the store keep the names of every directory distinct, so a store that
  starts on a well-formed tree stays on one.
\<close>

lemma wfDisk_Cleanup: "wfDisk (disk w) \<Longrightarrow> wfDisk (disk (Cleanup w now))"
  by (simp add: Cleanup_def Let_def wfDisk_cleanupServers)

lemma wfDisk_Rotate: "wfDisk (disk w) \<Longrightarrow> wfDisk (disk (snd (Rotate w h)))"
  by simp

lemma wfDisk_getOrCreateFile:
  "wfDisk (disk w) \<Longrightarrow> wfDisk (disk (snd (getOrCreateFile layout w now h)))"
proof -
  assume wf: "wfDisk (disk w)"
  show ?thesis
  proof (cases "files w h")
    case (Some f)
    with wf show ?thesis by (simp add: getOrCreateFile_def)
  next
    case None
    show ?thesis
    proof (cases "MkdirAll (disk w) h")
      case None
      with wf \<open>files w h = None\<close> show ?thesis by (simp add: getOrCreateFile_def)
    next
      case (Some tree)
      have wft: "wfDisk tree"
        by (rule wfDisk_MkdirAll [OF wf Some])
      define d where "d = (case hostDir tree h of Some d \<Rightarrow> d | None \<Rightarrow> [])"
      have dd: "distinct (map fst d)"
        using wft by (auto simp: d_def dest: wfDisk_hostDir split: option.splits)
      have created: "wfDisk (disk (snd (createLogFile layout (w\<lparr>disk := tree\<rparr>) now h d)))"
        using wft dd
        by (auto simp: createLogFile_def Let_def wfDisk_putDir distinct_Symlink distinct_Remove
              distinct_OpenCreate split: option.splits)
      show ?thesis
        using \<open>files w h = None\<close> Some wft created
        by (auto simp: getOrCreateFile_def Let_def d_def split: option.splits)
    qed
  qed
qed

lemma wfDisk_Write: "wfDisk (disk w) \<Longrightarrow> wfDisk (disk (snd (Write layout w now h data)))"
proof -
  assume wf: "wfDisk (disk w)"
  obtain res w1 where g: "getOrCreateFile layout w now h = (res, w1)"
    by (cases "getOrCreateFile layout w now h")
  have wf1: "wfDisk (disk w1)"
    using wfDisk_getOrCreateFile [OF wf, of layout now h] g by simp
  show ?thesis
  proof (cases res)
    case (Inl err)
    with g wf1 show ?thesis by (simp add: Write_def)
  next
    case (Inr f)
    have "wfDisk (fileWrite (disk w1) h f data now)"
    proof (cases "hostDir (disk w1) h")
      case None
      with wf1 show ?thesis by (simp add: fileWrite_def)
    next
      case (Some d)
      have "distinct (map fst (appendTo d f data now))"
        using wfDisk_hostDir [OF wf1 Some] by simp
      with wf1 Some show ?thesis by (simp add: fileWrite_def wfDisk_putDir)
    qed
    with g Inr show ?thesis by (simp add: Write_def)
  qed
qed

lemma wfDisk_NewWriter: "wfDisk (disk (NewWriter [] days))"
  by (simp add: NewWriter_def wfDisk_def)




section \<open>Facts about the session manager\<close>

lemma cancelExisting_fields [simp]:
  "heap (cancelExisting m r) = heap m"
  "sessions (cancelExisting m r) = sessions m"
  "nextRef (cancelExisting m r) = nextRef m"
  "chans (cancelExisting m r) = chans m"
  by (simp_all add: cancelExisting_def callCancel_def split: option.splits)

lemma cancelExisting_cancelled:
  "cancelled (cancelExisting m r) =
     (case heap m r of
        None \<Rightarrow> cancelled m
      | Some s \<Rightarrow> (case cancel s of None \<Rightarrow> cancelled m | Some ctx \<Rightarrow> insert ctx (cancelled m)))"
  by (simp add: cancelExisting_def callCancel_def split: option.splits)

lemma cancelExisting_effects:
  "effects (cancelExisting m r) =
     (case heap m r of
        None \<Rightarrow> effects m
      | Some s \<Rightarrow> (case cancel s of None \<Rightarrow> effects m | Some ctx \<Rightarrow> effects m @ [Cancel ctx]))"
  by (simp add: cancelExisting_def callCancel_def split: option.splits)

lemma StartSession_fields [simp]:
  "heap (StartSession m h ip) =
     (heap m)(Suc (nextRef m) \<mapsto>
        \<lparr>ServerName = h, IP = ip, Connected = False, LastError = [],
         cancel = Some (nextRef m), subscribers = Some {}\<rparr>)"
  "sessions (StartSession m h ip) = (sessions m)(h \<mapsto> Suc (nextRef m))"
  "nextRef (StartSession m h ip) = Suc (Suc (nextRef m))"
  "chans (StartSession m h ip) = chans m"
  by (simp_all add: StartSession_def Let_def split: option.splits)

lemma StartSession_cancelled:
  "cancelled (StartSession m h ip) =
     (case sessions m h of None \<Rightarrow> cancelled m | Some existing \<Rightarrow> cancelled (cancelExisting m existing))"
  by (simp add: StartSession_def Let_def split: option.splits)

lemma StartSession_effects:
  "effects (StartSession m h ip) =
     (case sessions m h of None \<Rightarrow> effects m | Some existing \<Rightarrow> effects (cancelExisting m existing))
     @ [Install h (Suc (nextRef m)), Go (nextRef m) (Suc (nextRef m))]"
  by (simp add: StartSession_def Let_def split: option.splits)

lemma StopSession_fields:
  "nextRef (StopSession m h) = nextRef m"
  "sessions (StopSession m h) = (sessions m)(h := None)"
  "heap (StopSession m h) r =
     (case sessions m h of
        None \<Rightarrow> heap m r
      | Some session \<Rightarrow>
          if r = session then map_option (\<lambda>s. s\<lparr>subscribers := None\<rparr>) (heap m r) else heap m r)"
  "cancelled (StopSession m h) =
     (case sessions m h of None \<Rightarrow> cancelled m | Some session \<Rightarrow> cancelled (cancelExisting m session))"
  by (auto simp: StopSession_def Let_def split: option.splits)

lemma StopSession_chans:
  "chans (StopSession m h) ch = Some c \<Longrightarrow> \<exists>c'. chans m ch = Some c'"
  by (auto simp: StopSession_def Let_def closeAll_def split: option.splits if_splits)

lemma Subscribe_fields:
  "nextRef (snd (Subscribe m h)) = (case sessions m h of None \<Rightarrow> nextRef m | Some r \<Rightarrow> Suc (nextRef m))"
  "sessions (snd (Subscribe m h)) = sessions m"
  "cancelled (snd (Subscribe m h)) = cancelled m"
  "chans (snd (Subscribe m h)) =
     (case sessions m h of
        None \<Rightarrow> chans m
      | Some r \<Rightarrow> (chans m)(nextRef m \<mapsto> \<lparr>capacity = 100, queue = [], closed = False\<rparr>))"
  by (simp_all add: Subscribe_def Let_def split: option.splits)

lemma Subscribe_heap:
  "heap (snd (Subscribe m h)) r =
     (case sessions m h of
        None \<Rightarrow> heap m r
      | Some session \<Rightarrow>
          if r = session
          then map_option
                 (\<lambda>s. s\<lparr>subscribers := map_option (insert (nextRef m)) (subscribers s)\<rparr>) (heap m r)
          else heap m r)"
  by (auto simp: Subscribe_def Let_def split: option.splits)

lemma unsubscribe_fields [simp]:
  "nextRef (unsubscribe m cl) = nextRef m"
  "sessions (unsubscribe m cl) = sessions m"
  "cancelled (unsubscribe m cl) = cancelled m"
  "chans (unsubscribe m cl) = chans m"
  by (simp_all add: unsubscribe_def split: prod.splits)

lemma unsubscribe_heap:
  "heap (unsubscribe m (session, ch)) r =
     (if r = session
      then map_option (\<lambda>s. s\<lparr>subscribers := map_option (\<lambda>subs. subs - {ch}) (subscribers s)\<rparr>) (heap m r)
      else heap m r)"
  by (simp add: unsubscribe_def)

lemma setStatus_fields [simp]:
  "nextRef (setStatus m session up err) = nextRef m"
  "sessions (setStatus m session up err) = sessions m"
  "cancelled (setStatus m session up err) = cancelled m"
  "chans (setStatus m session up err) = chans m"
  "heap (setStatus m session up err) r =
     (if r = session then map_option (\<lambda>s. s\<lparr>Connected := up, LastError := err\<rparr>) (heap m r)
      else heap m r)"
  by (simp_all add: setStatus_def)

lemma manager_heap_below: "manager m \<Longrightarrow> heap m r = Some s \<Longrightarrow> r < nextRef m"
proof (induction arbitrary: r s rule: manager.induct)
  case new
  then show ?case by (simp add: NewManager_def)
next
  case (start m h ip)
  then show ?case by (fastforce split: if_splits)
next
  case (stop m h)
  then show ?case by (fastforce simp: StopSession_fields split: option.splits if_splits)
next
  case (subscribe m h)
  then show ?case
    by (fastforce simp: Subscribe_fields Subscribe_heap less_Suc_eq split: option.splits if_splits)
next
  case (unsubscribe m cl)
  then show ?case by (cases cl) (fastforce simp: unsubscribe_heap split: if_splits)
next
  case (status m session up err)
  then show ?case by (fastforce split: if_splits)
qed

lemma manager_cancel_below:
  "manager m \<Longrightarrow> heap m r = Some s \<Longrightarrow> \<exists>ctx. cancel s = Some ctx \<and> ctx < nextRef m"
proof (induction arbitrary: r s rule: manager.induct)
  case new
  then show ?case by (simp add: NewManager_def)
next
  case (start m h ip)
  then show ?case by (fastforce simp: less_Suc_eq split: if_splits)
next
  case (stop m h)
  then show ?case by (fastforce simp: StopSession_fields split: option.splits if_splits)
next
  case (subscribe m h)
  then show ?case
    by (fastforce simp: Subscribe_fields Subscribe_heap less_Suc_eq split: option.splits if_splits)
next
  case (unsubscribe m cl)
  then show ?case by (cases cl) (fastforce simp: unsubscribe_heap split: if_splits)
next
  case (status m session up err)
  then show ?case by (fastforce split: if_splits)
qed

lemma manager_subscribers_below:
  "manager m \<Longrightarrow> heap m r = Some s \<Longrightarrow> subscribers s = Some subs \<Longrightarrow> ch \<in> subs
     \<Longrightarrow> ch < nextRef m"
proof (induction arbitrary: r s subs ch rule: manager.induct)
  case new
  then show ?case by (simp add: NewManager_def)
next
  case (start m h ip)
  then show ?case by (fastforce simp: less_Suc_eq split: if_splits)
next
  case (stop m h)
  then show ?case by (fastforce simp: StopSession_fields split: option.splits if_splits)
next
  case (subscribe m h)
  then show ?case
    by (fastforce simp: Subscribe_fields Subscribe_heap less_Suc_eq split: option.splits if_splits)
next
  case (unsubscribe m cl)
  then show ?case by (cases cl) (fastforce simp: unsubscribe_heap split: if_splits)
next
  case (status m session up err)
  then show ?case by (fastforce split: if_splits)
qed

lemma manager_registered:
  "manager m \<Longrightarrow> sessions m h = Some r \<Longrightarrow>
     \<exists>s. heap m r = Some s \<and> ServerName s = h \<and> subscribers s \<noteq> None"
proof (induction arbitrary: h r rule: manager.induct)
  case new
  then show ?case by (simp add: NewManager_def)
next
  case (start m h' ip)
  then show ?case
    using manager_heap_below [OF start.hyps] by (fastforce split: if_splits)
next
  case (stop m h')
  from stop.prems have ne: "h \<noteq> h'" and reg: "sessions m h = Some r"
    by (auto simp: StopSession_fields split: if_splits)
  from stop.IH [OF reg] obtain s where s: "heap m r = Some s" "ServerName s = h" "subscribers s \<noteq> None"
    by blast
  have "heap (StopSession m h') r = heap m r"
  proof (cases "sessions m h'")
    case None
    then show ?thesis by (simp add: StopSession_fields)
  next
    case (Some session)
    from stop.IH [OF Some] s ne have "r \<noteq> session" by auto
    with Some show ?thesis by (simp add: StopSession_fields)
  qed
  with s show ?case by simp
next
  case (subscribe m h')
  then show ?case
    by (fastforce simp: Subscribe_fields Subscribe_heap split: option.splits if_splits)
next
  case (unsubscribe m cl)
  then show ?case by (cases cl) (fastforce simp: unsubscribe_heap split: if_splits)
next
  case (status m session up err)
  then show ?case by (fastforce split: if_splits)
qed

lemma live_iff:
  "live m h r \<longleftrightarrow>
     (\<exists>s. heap m r = Some s \<and> ServerName s = h \<and> (\<forall>ctx. cancel s = Some ctx \<longrightarrow> ctx \<notin> cancelled m))"
  by (auto simp: live_def split: option.splits)

lemma cancelled_mono_cancelExisting: "ctx \<in> cancelled m \<Longrightarrow> ctx \<in> cancelled (cancelExisting m r)"
  by (auto simp: cancelExisting_cancelled split: option.splits)

lemma manager_live_registered: "manager m \<Longrightarrow> live m h r \<Longrightarrow> sessions m h = Some r"
proof (induction arbitrary: h r rule: manager.induct)
  case new
  then show ?case by (simp add: live_iff NewManager_def)
next
  case (start m h' ip)
  from start.prems obtain s where s: "heap (StartSession m h' ip) r = Some s" "ServerName s = h"
    and free: "\<And>ctx. cancel s = Some ctx \<Longrightarrow> ctx \<notin> cancelled (StartSession m h' ip)"
    by (auto simp: live_iff)
  show ?case
  proof (cases "r = Suc (nextRef m)")
    case True
    with s show ?thesis by auto
  next
    case False
    with s have old: "heap m r = Some s" by simp
    from manager_cancel_below [OF start.hyps old] obtain ctx where ctx: "cancel s = Some ctx"
      by blast
    have out: "ctx \<notin> cancelled (StartSession m h' ip)"
      by (rule free [OF ctx])
    then have "ctx \<notin> cancelled m"
      by (auto simp: StartSession_cancelled cancelled_mono_cancelExisting split: option.splits)
    with old s ctx have "live m h r"
      by (auto simp: live_iff)
    then have reg: "sessions m h = Some r"
      by (rule start.IH)
    have "h \<noteq> h'"
    proof
      assume "h = h'"
      with reg old ctx have "ctx \<in> cancelled (StartSession m h' ip)"
        by (simp add: StartSession_cancelled cancelExisting_cancelled)
      with out show False by simp
    qed
    with reg show ?thesis by simp
  qed
next
  case (stop m h')
  from stop.prems obtain s where s: "heap (StopSession m h') r = Some s" "ServerName s = h"
    and free: "\<And>ctx. cancel s = Some ctx \<Longrightarrow> ctx \<notin> cancelled (StopSession m h')"
    by (auto simp: live_iff)
  from s obtain s0 where old: "heap m r = Some s0" "ServerName s0 = h" "cancel s = cancel s0"
    by (auto simp: StopSession_fields split: option.splits if_splits)
  from manager_cancel_below [OF stop.hyps old(1)] obtain ctx where ctx: "cancel s0 = Some ctx"
    by blast
  have out: "ctx \<notin> cancelled (StopSession m h')"
    using free ctx old by simp
  then have "ctx \<notin> cancelled m"
    by (auto simp: StopSession_fields cancelled_mono_cancelExisting split: option.splits)
  with old ctx have "live m h r"
    by (auto simp: live_iff)
  then have reg: "sessions m h = Some r"
    by (rule stop.IH)
  have "h \<noteq> h'"
  proof
    assume "h = h'"
    with reg old ctx have "ctx \<in> cancelled (StopSession m h')"
      by (simp add: StopSession_fields cancelExisting_cancelled)
    with out show False by simp
  qed
  with reg show ?case by (simp add: StopSession_fields)
next
  case (subscribe m h')
  from subscribe.prems have "live m h r"
    by (auto simp: live_iff Subscribe_fields Subscribe_heap split: option.splits if_splits)
  then show ?case
    by (simp add: subscribe.IH Subscribe_fields)
next
  case (unsubscribe m cl)
  obtain session ch where cl: "cl = (session, ch)" by (cases cl)
  from unsubscribe.prems have "live m h r"
    by (auto simp: live_iff cl unsubscribe_heap split: if_splits)
  then show ?case
    by (simp add: unsubscribe.IH)
next
  case (status m session up err)
  from status.prems have "live m h r"
    by (auto simp: live_iff split: if_splits)
  then show ?case
    by (simp add: status.IH)
qed

lemma manager_cancelled_below: "manager m \<Longrightarrow> ctx \<in> cancelled m \<Longrightarrow> ctx < nextRef m"
proof (induction arbitrary: ctx rule: manager.induct)
  case new
  then show ?case by (simp add: NewManager_def)
next
  case (start m h ip)
  then show ?case
    using manager_cancel_below [OF start.hyps]
    by (fastforce simp: StartSession_cancelled cancelExisting_cancelled less_Suc_eq
          split: option.splits)
next
  case (stop m h)
  then show ?case
    using manager_cancel_below [OF stop.hyps]
    by (fastforce simp: StopSession_fields cancelExisting_cancelled split: option.splits)
next
  case (subscribe m h)
  then show ?case
    by (fastforce simp: Subscribe_fields less_Suc_eq split: option.splits)
next
  case (unsubscribe m cl)
  then show ?case by simp
next
  case (status m session up err)
  then show ?case by simp
qed

lemma manager_chans_below: "manager m \<Longrightarrow> chans m ch = Some c \<Longrightarrow> ch < nextRef m"
proof (induction arbitrary: ch c rule: manager.induct)
  case new
  then show ?case by (simp add: NewManager_def)
next
  case (start m h ip)
  then show ?case by (fastforce simp: less_Suc_eq)
next
  case (stop m h)
  then show ?case
    using StopSession_chans [of m h ch c] by (fastforce simp: StopSession_fields)
next
  case (subscribe m h)
  then show ?case
    by (fastforce simp: Subscribe_fields less_Suc_eq split: option.splits if_splits)
next
  case (unsubscribe m cl)
  then show ?case by simp
next
  case (status m session up err)
  then show ?case by simp
qed

text \<open>
  Claim C8. In every manager the program can reach, a host has at most one live session,
  and it is the one the registry holds for the host. When \<open>StartSession\<close> is called for a
  host that has a session, the old session's \<^verbatim>\<open>cancel\<close> is called first, then the new
  session is stored in the registry and its loop is started; afterwards the registry maps
  the host to the new session, the old one is no longer live and the new one is.
\<close>

theorem one_live_session_per_host:
  assumes "manager m"
  shows "(live m h r \<and> live m h r' \<longrightarrow> r = r')
    \<and> (live m h r \<longrightarrow> sessions m h = Some r)
    \<and> (sessions m h = Some old \<longrightarrow>
          (\<exists>s ctx. heap m old = Some s \<and> cancel s = Some ctx
             \<and> ctx \<in> cancelled (StartSession m h ip)
             \<and> effects (StartSession m h ip) =
                 effects m @ [Cancel ctx, Install h (Suc (nextRef m)), Go (nextRef m) (Suc (nextRef m))])
          \<and> sessions (StartSession m h ip) h = Some (Suc (nextRef m))
          \<and> Suc (nextRef m) \<noteq> old
          \<and> \<not> live (StartSession m h ip) h old
          \<and> live (StartSession m h ip) h (Suc (nextRef m)))"
proof -
  have unique: "r = r'" if "live m h r" "live m h r'"
    using manager_live_registered [OF assms that(1)] manager_live_registered [OF assms that(2)]
    by simp
  have reg: "sessions m h = Some r" if "live m h r"
    using manager_live_registered [OF assms that] .
  have restart: "(\<exists>s ctx. heap m old = Some s \<and> cancel s = Some ctx
             \<and> ctx \<in> cancelled (StartSession m h ip)
             \<and> effects (StartSession m h ip) =
                 effects m @ [Cancel ctx, Install h (Suc (nextRef m)), Go (nextRef m) (Suc (nextRef m))])
          \<and> sessions (StartSession m h ip) h = Some (Suc (nextRef m))
          \<and> Suc (nextRef m) \<noteq> old
          \<and> \<not> live (StartSession m h ip) h old
          \<and> live (StartSession m h ip) h (Suc (nextRef m))"
    if old: "sessions m h = Some old"
  proof -
    from manager_registered [OF assms old] obtain s where s: "heap m old = Some s"
      by blast
    from manager_cancel_below [OF assms s] obtain ctx where ctx: "cancel s = Some ctx" "ctx < nextRef m"
      by blast
    have below: "old < nextRef m"
      by (rule manager_heap_below [OF assms s])
    have c1: "ctx \<in> cancelled (StartSession m h ip)"
      using old s ctx by (simp add: StartSession_cancelled cancelExisting_cancelled)
    have c2: "effects (StartSession m h ip) =
        effects m @ [Cancel ctx, Install h (Suc (nextRef m)), Go (nextRef m) (Suc (nextRef m))]"
      using old s ctx by (simp add: StartSession_effects cancelExisting_effects)
    have c3: "sessions (StartSession m h ip) h = Some (Suc (nextRef m))"
      by simp
    have c4: "Suc (nextRef m) \<noteq> old"
      using below by simp
    have c5: "\<not> live (StartSession m h ip) h old"
      using c1 c4 s ctx by (auto simp: live_iff)
    have fresh: "nextRef m \<notin> cancelled (StartSession m h ip)"
      using manager_cancelled_below [OF assms, of "nextRef m"] old s ctx
      by (auto simp: StartSession_cancelled cancelExisting_cancelled)
    have c6: "live (StartSession m h ip) h (Suc (nextRef m))"
      using fresh by (simp add: live_iff)
    from s ctx c1 c2 c3 c4 c5 c6 show ?thesis
      by blast
  qed
  from unique reg restart show ?thesis
    by blast
qed

theorem one_live_session_per_host_witness:
  "manager (StartSession NewManager ''node1'' ''10.0.0.1'')
   \<and> sessions (StartSession NewManager ''node1'' ''10.0.0.1'') ''node1'' = Some (Suc 0)
   \<and> live (StartSession NewManager ''node1'' ''10.0.0.1'') ''node1'' (Suc 0)
   \<and> sessions (StartSession (StartSession NewManager ''node1'' ''10.0.0.1'') ''node1'' ''10.0.0.2'')
        ''node1'' = Some (Suc (nextRef (StartSession NewManager ''node1'' ''10.0.0.1'')))
   \<and> \<not> live (StartSession (StartSession NewManager ''node1'' ''10.0.0.1'') ''node1'' ''10.0.0.2'')
          ''node1'' (Suc 0)
   \<and> live (StartSession (StartSession NewManager ''node1'' ''10.0.0.1'') ''node1'' ''10.0.0.2'')
          ''node1'' (Suc (nextRef (StartSession NewManager ''node1'' ''10.0.0.1'')))"
proof -
  let ?m = "StartSession NewManager ''node1'' ''10.0.0.1''"
  have m: "manager ?m"
    by (rule manager.start) (rule manager.new)
  have reg: "sessions ?m ''node1'' = Some (Suc 0)"
    by (simp add: NewManager_def)
  have alive: "live ?m ''node1'' (Suc 0)"
    by (simp add: live_iff StartSession_cancelled NewManager_def)
  note inst = one_live_session_per_host [OF m, of "''node1''" "Suc 0" "Suc 0" "Suc 0" "''10.0.0.2''"]
  from inst alive have again: "sessions ?m ''node1'' = Some (Suc 0)"
    by blast
  from inst reg have after: "sessions (StartSession ?m ''node1'' ''10.0.0.2'') ''node1'' = Some (Suc (nextRef ?m))
      \<and> \<not> live (StartSession ?m ''node1'' ''10.0.0.2'') ''node1'' (Suc 0)
      \<and> live (StartSession ?m ''node1'' ''10.0.0.2'') ''node1'' (Suc (nextRef ?m))"
    by blast
  from m again alive after show ?thesis
    by blast
qed

text \<open>
  Claim C9. \<open>Subscribe\<close> for a host without a session returns \<open>NoSession\<close> and
  changes nothing. For a host with a session it makes a channel that no subscriber set
  holds yet, with room for 100 chunks, puts it in the session's set and returns it with
  the closure; the closure takes that channel, and no other, out of the set of the session
  it was made for, and leaves the other sessions alone.
\<close>

theorem subscribe_registers_sink:
  assumes "manager m"
  shows "(sessions m h = None \<longrightarrow> Subscribe m h = (NoSession, m))
    \<and> (sessions m h = Some r \<longrightarrow>
         (\<exists>s subs. heap m r = Some s \<and> subscribers s = Some subs
            \<and> nextRef m \<notin> subs
            \<and> chans m (nextRef m) = None
            \<and> fst (Subscribe m h) = Subscribed (nextRef m) (r, nextRef m)
            \<and> chans (snd (Subscribe m h)) (nextRef m)
                 = Some \<lparr>capacity = 100, queue = [], closed = False\<rparr>
            \<and> heap (snd (Subscribe m h)) r = Some (s\<lparr>subscribers := Some (insert (nextRef m) subs)\<rparr>)
            \<and> heap (unsubscribe (snd (Subscribe m h)) (r, nextRef m)) r = Some s))
    \<and> (heap m r = Some s' \<longrightarrow>
         heap (unsubscribe m (r, ch)) r
           = Some (s'\<lparr>subscribers := map_option (\<lambda>subs. subs - {ch}) (subscribers s')\<rparr>))
    \<and> (r' \<noteq> r \<longrightarrow> heap (unsubscribe m (r, ch)) r' = heap m r')"
proof -
  have absent: "Subscribe m h = (NoSession, m)" if "sessions m h = None"
    using that by (simp add: Subscribe_def)
  have present: "\<exists>s subs. heap m r = Some s \<and> subscribers s = Some subs
            \<and> nextRef m \<notin> subs
            \<and> chans m (nextRef m) = None
            \<and> fst (Subscribe m h) = Subscribed (nextRef m) (r, nextRef m)
            \<and> chans (snd (Subscribe m h)) (nextRef m)
                 = Some \<lparr>capacity = 100, queue = [], closed = False\<rparr>
            \<and> heap (snd (Subscribe m h)) r = Some (s\<lparr>subscribers := Some (insert (nextRef m) subs)\<rparr>)
            \<and> heap (unsubscribe (snd (Subscribe m h)) (r, nextRef m)) r = Some s"
    if reg: "sessions m h = Some r"
  proof -
    from manager_registered [OF assms reg] obtain s subs
      where s: "heap m r = Some s" and subs: "subscribers s = Some subs"
      by auto
    have fresh: "nextRef m \<notin> subs"
      using manager_subscribers_below [OF assms s subs, of "nextRef m"] by auto
    have unused: "chans m (nextRef m) = None"
      using manager_chans_below [OF assms, of "nextRef m"] by (cases "chans m (nextRef m)") auto
    have p1: "fst (Subscribe m h) = Subscribed (nextRef m) (r, nextRef m)"
      using reg s subs by (simp add: Subscribe_def Let_def)
    have p2: "chans (snd (Subscribe m h)) (nextRef m) = Some \<lparr>capacity = 100, queue = [], closed = False\<rparr>"
      using reg by (simp add: Subscribe_fields)
    have p3: "heap (snd (Subscribe m h)) r = Some (s\<lparr>subscribers := Some (insert (nextRef m) subs)\<rparr>)"
      using reg s subs by (simp add: Subscribe_heap)
    have p4: "heap (unsubscribe (snd (Subscribe m h)) (r, nextRef m)) r = Some s"
      using fresh subs by (simp add: unsubscribe_heap p3)
    from s subs fresh unused p1 p2 p3 p4 show ?thesis
      by blast
  qed
  have removes: "heap (unsubscribe m (r, ch)) r
           = Some (s'\<lparr>subscribers := map_option (\<lambda>subs. subs - {ch}) (subscribers s')\<rparr>)"
    if "heap m r = Some s'"
    using that by (simp add: unsubscribe_heap)
  have others: "heap (unsubscribe m (r, ch)) r' = heap m r'" if "r' \<noteq> r"
    using that by (simp add: unsubscribe_heap)
  from absent present removes others show ?thesis
    by blast
qed

theorem subscribe_registers_sink_witness:
  "manager (StartSession NewManager ''node1'' ''10.0.0.1'')
   \<and> sessions (StartSession NewManager ''node1'' ''10.0.0.1'') ''node2'' = None
   \<and> Subscribe (StartSession NewManager ''node1'' ''10.0.0.1'') ''node2''
       = (NoSession, StartSession NewManager ''node1'' ''10.0.0.1'')
   \<and> sessions (StartSession NewManager ''node1'' ''10.0.0.1'') ''node1'' = Some (Suc 0)
   \<and> fst (Subscribe (StartSession NewManager ''node1'' ''10.0.0.1'') ''node1'')
       = Subscribed (nextRef (StartSession NewManager ''node1'' ''10.0.0.1''))
           (Suc 0, nextRef (StartSession NewManager ''node1'' ''10.0.0.1''))
   \<and> chans (snd (Subscribe (StartSession NewManager ''node1'' ''10.0.0.1'') ''node1''))
         (nextRef (StartSession NewManager ''node1'' ''10.0.0.1''))
       = Some \<lparr>capacity = 100, queue = [], closed = False\<rparr>
   \<and> nextRef (StartSession NewManager ''node1'' ''10.0.0.1'') = 2"
proof -
  let ?m = "StartSession NewManager ''node1'' ''10.0.0.1''"
  have m: "manager ?m"
    by (rule manager.start) (rule manager.new)
  have none: "sessions ?m ''node2'' = None"
    by (simp add: NewManager_def)
  have some: "sessions ?m ''node1'' = Some (Suc 0)"
    by (simp add: NewManager_def)
  have nr: "nextRef ?m = 2"
    by (simp add: NewManager_def)
  note inst = subscribe_registers_sink [OF m, of _ "Suc 0"]
  from inst [of "''node2''"] none have a: "Subscribe ?m ''node2'' = (NoSession, ?m)"
    by blast
  from inst [of "''node1''"] some
  have b: "fst (Subscribe ?m ''node1'') = Subscribed (nextRef ?m) (Suc 0, nextRef ?m)
     \<and> chans (snd (Subscribe ?m ''node1'')) (nextRef ?m)
         = Some \<lparr>capacity = 100, queue = [], closed = False\<rparr>"
    by blast
  from m none a some b nr show ?thesis
    by blast
qed

lemma nextBackoff:
  "(if min (2 ^ j) 60 * Second * 2 > 60 * Second then 60 * Second else min (2 ^ j) 60 * Second * 2)
     = min (2 ^ Suc j) 60 * Second"
  by (simp add: Second_def min_def)

lemma sessionLoop_round:
  "fst (sessionLoop connect b s ((False, False) # rounds)) =
     b # fst (sessionLoop connect (if b * 2 > 60 * Second then 60 * Second else b * 2)
               (case snd (connect s) of
                  None \<Rightarrow> fst (connect s)
                | Some e \<Rightarrow> (fst (connect s))\<lparr>Connected := False, LastError := e\<rparr>)
               rounds)"
  by (simp add: Let_def split_beta)

lemma sessionLoop_waits:
  "i < k \<Longrightarrow>
     k \<le> length (fst (sessionLoop connect (min (2 ^ j) 60 * Second) s (replicate k (False, False) @ rest)))
     \<and> fst (sessionLoop connect (min (2 ^ j) 60 * Second) s (replicate k (False, False) @ rest)) ! i
         = min (2 ^ (j + i)) 60 * Second"
proof (induction k arbitrary: i j s)
  case 0
  then show ?case by simp
next
  case (Suc k)
  define s2 where "s2 = (case snd (connect s) of
                  None \<Rightarrow> fst (connect s)
                | Some e \<Rightarrow> (fst (connect s))\<lparr>Connected := False, LastError := e\<rparr>)"
  let ?tail = "sessionLoop connect (min (2 ^ Suc j) 60 * Second) s2 (replicate k (False, False) @ rest)"
  have step: "fst (sessionLoop connect (min (2 ^ j) 60 * Second) s (replicate (Suc k) (False, False) @ rest))
      = min (2 ^ j) 60 * Second # fst ?tail"
    by (simp only: replicate_Suc append_Cons sessionLoop_round nextBackoff s2_def)
  show ?case
  proof (cases i)
    case 0
    have "k \<le> length (fst ?tail)"
    proof (cases k)
      case 0
      then show ?thesis by simp
    next
      case (Suc k')
      then show ?thesis using Suc.IH [of 0 "Suc j" s2] by simp
    qed
    with 0 show ?thesis by (simp only: step) simp
  next
    case (Suc i')
    with Suc.prems have "i' < k" by simp
    from Suc.IH [OF this, of "Suc j" s2] Suc show ?thesis
      by (simp only: step) simp
  qed
qed

text \<open>
  Claim C7. Along rounds in which the context is not cancelled, the loop waits
  \<open>min (2 ^ (k - 1)) 60\<close> seconds before retry \<open>k\<close>: one second before the first retry,
  twice the last interval after every round, at most sixty seconds. This holds for every
  connection attempt, also one that succeeds, so a success does not reset the interval;
  \<open>runSession\<close> is the case of \<open>connectSOL\<close>.
\<close>

theorem backoff_schedule:
  "(1 \<le> k \<and> k \<le> n \<longrightarrow>
      n \<le> length (fst (runSessionWith connect s (replicate n (False, False) @ rest)))
      \<and> fst (runSessionWith connect s (replicate n (False, False) @ rest)) ! (k - 1)
          = min (2 ^ (k - 1)) 60 * Second)
   \<and> runSession s rounds = runSessionWith connectSOL s rounds"
proof -
  have "n \<le> length (fst (runSessionWith connect s (replicate n (False, False) @ rest)))
      \<and> fst (runSessionWith connect s (replicate n (False, False) @ rest)) ! (k - 1)
          = min (2 ^ (k - 1)) 60 * Second"
    if "1 \<le> k" "k \<le> n"
  proof -
    from that have "k - 1 < n" by simp
    from sessionLoop_waits [OF this, of connect 0 s rest] show ?thesis
      by (simp add: runSessionWith_def)
  qed
  then show ?thesis
    by (simp add: runSession_def)
qed

theorem backoff_schedule_witness:
  "(1::nat) \<le> 7 \<and> (7::nat) \<le> 8
   \<and> fst (runSessionWith connectSOL
        \<lparr>ServerName = ''node1'', IP = ''10.0.0.1'', Connected = False, LastError = [],
         cancel = Some 0, subscribers = Some {}\<rparr> (replicate 8 (False, False) @ [])) ! (7 - 1)
       = 60 * Second
   \<and> fst (runSessionWith (\<lambda>s. (s\<lparr>Connected := True\<rparr>, None))
        \<lparr>ServerName = ''node1'', IP = ''10.0.0.1'', Connected = False, LastError = [],
         cancel = Some 0, subscribers = Some {}\<rparr> (replicate 8 (False, False) @ [])) ! (6 - 1)
       = 32 * Second"
proof -
  let ?s = "\<lparr>ServerName = ''node1'', IP = ''10.0.0.1'', Connected = False, LastError = [],
         cancel = Some 0, subscribers = Some {}\<rparr>"
  have k7: "(1::nat) \<le> 7 \<and> (7::nat) \<le> 8" by simp
  have k6: "(1::nat) \<le> 6 \<and> (6::nat) \<le> 8" by simp
  have v7: "min (2 ^ (7 - 1)) 60 * Second = 60 * Second" by simp
  have v6: "min (2 ^ (6 - 1)) 60 * Second = 32 * Second" by simp
  from backoff_schedule [of 7 8 connectSOL ?s "[]"] k7
  have a0: "fst (runSessionWith connectSOL ?s (replicate 8 (False, False) @ [])) ! (7 - 1)
      = min (2 ^ (7 - 1)) 60 * Second"
    by blast
  from a0 v7
  have a: "fst (runSessionWith connectSOL ?s (replicate 8 (False, False) @ [])) ! (7 - 1) = 60 * Second"
    by (simp only:)
  from backoff_schedule [of 6 8 "\<lambda>s. (s\<lparr>Connected := True\<rparr>, None)" ?s "[]"] k6
  have b0: "fst (runSessionWith (\<lambda>s. (s\<lparr>Connected := True\<rparr>, None)) ?s (replicate 8 (False, False) @ [])) ! (6 - 1)
      = min (2 ^ (6 - 1)) 60 * Second"
    by blast
  from b0 v6
  have b: "fst (runSessionWith (\<lambda>s. (s\<lparr>Connected := True\<rparr>, None)) ?s (replicate 8 (False, False) @ [])) ! (6 - 1)
      = 32 * Second"
    by (simp only:)
  from k7 a b show ?thesis by blast
qed

end
